theory Spec2Isabelle
  imports Complex_Main
begin

section \<open>JavaScript numbers\<close>

text \<open>
  The sensor readings, the filter state and the constants of \<^verbatim>\<open>App.tsx\<close> are JavaScript
  numbers: IEEE 754 binary64 values. A number is modelled as the real it denotes, or one
  of the three special values. The result of an operation on finite values is the exact
  real result rounded to the nearest double, ties to even, and to an infinity beyond the
  largest double. The special values follow the IEEE rules: NaN is absorbing,
  \<open>Infinity - Infinity\<close> and \<open>Infinity * 0\<close> are NaN, and every comparison with NaN is
  false. The sign of a zero is left out; no operation of \<^verbatim>\<open>handleMotion\<close> observes it.
\<close>

datatype jsnum = Fin real | PInf | NInf | NaN

text \<open>Rounding to the nearest integer, a tie to the even one.\<close>

definition rne :: "real \<Rightarrow> int" where
  "rne q = (let n = \<lfloor>q\<rfloor>; r = q - of_int n
            in if r < 1/2 then n else if 1/2 < r then n + 1 else if even n then n else n + 1)"

text \<open>
  The binary exponent of a real, not below that of the subnormal doubles, and the
  distance between the doubles of that exponent (53 significant bits).
\<close>

definition exponent :: "real \<Rightarrow> int" where
  "exponent x = max (- 1022) \<lfloor>log 2 \<bar>x\<bar>\<rfloor>"

definition ulp :: "real \<Rightarrow> real" where
  "ulp x = 2 powr of_int (exponent x - 52)"

definition js_round :: "real \<Rightarrow> jsnum" where
  "js_round x =
     (if x = 0 then Fin 0
      else let y = of_int (rne (x / ulp x)) * ulp x
           in if 2 ^ 1024 \<le> \<bar>y\<bar> then (if 0 < x then PInf else NInf) else Fin y)"

fun js_neg :: "jsnum \<Rightarrow> jsnum" where
  "js_neg (Fin a) = Fin (- a)"
| "js_neg PInf = NInf"
| "js_neg NInf = PInf"
| "js_neg NaN = NaN"

fun js_add :: "jsnum \<Rightarrow> jsnum \<Rightarrow> jsnum" where
  "js_add (Fin a) (Fin b) = js_round (a + b)"
| "js_add NaN b = NaN"
| "js_add a NaN = NaN"
| "js_add PInf NInf = NaN"
| "js_add NInf PInf = NaN"
| "js_add PInf b = PInf"
| "js_add a PInf = PInf"
| "js_add NInf b = NInf"
| "js_add a NInf = NInf"

definition js_sub :: "jsnum \<Rightarrow> jsnum \<Rightarrow> jsnum" where
  "js_sub a b = js_add a (js_neg b)"

fun js_mul :: "jsnum \<Rightarrow> jsnum \<Rightarrow> jsnum" where
  "js_mul (Fin a) (Fin b) = js_round (a * b)"
| "js_mul NaN b = NaN"
| "js_mul a NaN = NaN"
| "js_mul PInf (Fin b) = (if b = 0 then NaN else if 0 < b then PInf else NInf)"
| "js_mul NInf (Fin b) = (if b = 0 then NaN else if 0 < b then NInf else PInf)"
| "js_mul (Fin a) PInf = (if a = 0 then NaN else if 0 < a then PInf else NInf)"
| "js_mul (Fin a) NInf = (if a = 0 then NaN else if 0 < a then NInf else PInf)"
| "js_mul PInf PInf = PInf"
| "js_mul PInf NInf = NInf"
| "js_mul NInf PInf = NInf"
| "js_mul NInf NInf = PInf"

text \<open>\<^verbatim>\<open>Math.sqrt\<close> (correctly rounded) and \<^verbatim>\<open>Math.abs\<close>.\<close>

fun js_sqrt :: "jsnum \<Rightarrow> jsnum" where
  "js_sqrt (Fin a) = (if a < 0 then NaN else js_round (sqrt a))"
| "js_sqrt PInf = PInf"
| "js_sqrt NInf = NaN"
| "js_sqrt NaN = NaN"

fun js_abs :: "jsnum \<Rightarrow> jsnum" where
  "js_abs (Fin a) = Fin \<bar>a\<bar>"
| "js_abs PInf = PInf"
| "js_abs NInf = PInf"
| "js_abs NaN = NaN"

text \<open>The comparison \<^verbatim>\<open>a > b\<close>.\<close>

fun js_gt :: "jsnum \<Rightarrow> jsnum \<Rightarrow> bool" where
  "js_gt (Fin a) (Fin b) = (b < a)"
| "js_gt NaN b = False"
| "js_gt a NaN = False"
| "js_gt PInf PInf = False"
| "js_gt PInf b = True"
| "js_gt a PInf = False"
| "js_gt NInf b = False"
| "js_gt a NInf = True"

section \<open>Constants of \<^verbatim>\<open>App.tsx\<close>\<close>

text \<open>A decimal literal denotes the double nearest to it.\<close>

definition SMOOTHING :: jsnum where
  "SMOOTHING = js_round 0.8"

definition STEP_THRESHOLD :: jsnum where
  "STEP_THRESHOLD = js_round 1.1"

definition MIN_STEP_INTERVAL_MS :: int where
  "MIN_STEP_INTERVAL_MS = 400"

definition GRAVITY :: jsnum where
  "GRAVITY = js_round 9.81"

text \<open>
  The repository holds two variants of the component: \<^verbatim>\<open>src/App.tsx\<close> (here \<open>Basic\<close>)
  and \<^verbatim>\<open>client/src/App.tsx\<close> (here \<open>Chat\<close>). Their \<^verbatim>\<open>handleMotion\<close> differ only in
  the amount added per step, and their \<^verbatim>\<open>useState\<close> for \<^verbatim>\<open>steps\<close> in the initial value.
\<close>

datatype variant = Basic | Chat

fun stepIncrement :: "variant \<Rightarrow> int" where
  "stepIncrement Basic = 1"
| "stepIncrement Chat = 1000"

fun initialSteps :: "variant \<Rightarrow> int" where
  "initialSteps Basic = 0"
| "initialSteps Chat = 1000"

section \<open>State\<close>

datatype PermissionState = idle | pending | granted | denied

text \<open>
  A call of \<^verbatim>\<open>requestPermission()\<close> returns a promise that later resolves with a status
  string or rejects. The code that waits for it is remembered with the value of
  \<^verbatim>\<open>isTracking\<close> its closure captured when the request was issued.
\<close>

datatype requester = ByStartTracking | ByMountEffect | ByFirstInteraction | ByRequestPermission

datatype promise_result = Resolved string | Rejected

text \<open>
  The React state (\<^verbatim>\<open>useState\<close>) and refs (\<^verbatim>\<open>useRef\<close>) of the component, followed by
  the state of the runtime around it: the promises not yet settled, the number of
  \<^verbatim>\<open>setTimeout\<close> callbacks not yet run, and the one-shot \<^verbatim>\<open>touchstart\<close> and \<^verbatim>\<open>click\<close>
  listeners (holding the captured \<^verbatim>\<open>isTracking\<close> when registered). The last two fields
  are counters added for the statements below: how often \<^verbatim>\<open>requestPermission()\<close> has
  been called, and how often the block that starts tracking has run. The step count and
  the timestamps are integers (the precision limit of a JavaScript number at \<open>2^53\<close> is
  left out), and a state update is visible to the next event.
\<close>

record app =
  steps :: int
  isTracking :: bool
  permissionState :: PermissionState
  error :: "string option"
  lastStepAtRef :: int
  filteredMagnitudeRef :: jsnum
  hasAutoStartedRef :: bool
  permissionRequestedRef :: bool
  pendingRequests :: "(requester \<times> bool) list"
  timeouts :: nat
  touchstartListener :: "bool option"
  clickListener :: "bool option"
  requestsIssued :: nat
  startCount :: nat

definition initialApp :: "variant \<Rightarrow> app" where
  "initialApp v = \<lparr> steps = initialSteps v, isTracking = False, permissionState = idle,
     error = None, lastStepAtRef = 0, filteredMagnitudeRef = GRAVITY,
     hasAutoStartedRef = False, permissionRequestedRef = False,
     pendingRequests = [], timeouts = 0, touchstartListener = None, clickListener = None,
     requestsIssued = 0, startCount = 0 \<rparr>"

section \<open>Signal filter and step counter: \<^verbatim>\<open>handleMotion\<close>\<close>

text \<open>
  \<^verbatim>\<open>DeviceMotionEvent\<close>: both readings may be null, and so may each axis of a reading.
\<close>

record acceleration_reading =
  acc_x :: "jsnum option"
  acc_y :: "jsnum option"
  acc_z :: "jsnum option"

record DeviceMotionEvent =
  accelerationIncludingGravity :: "acceleration_reading option"
  acceleration :: "acceleration_reading option"

text \<open>The operator \<^verbatim>\<open>a ?? b\<close>.\<close>

fun nullish :: "'a option \<Rightarrow> 'a \<Rightarrow> 'a" where
  "nullish (Some a) b = a"
| "nullish None b = b"

text \<open>\<^verbatim>\<open>event.accelerationIncludingGravity ?? event.acceleration\<close>\<close>

definition selectAcceleration :: "DeviceMotionEvent \<Rightarrow> acceleration_reading option" where
  "selectAcceleration event =
     (case accelerationIncludingGravity event of Some a \<Rightarrow> Some a | None \<Rightarrow> acceleration event)"

definition magnitude :: "acceleration_reading \<Rightarrow> jsnum" where
  "magnitude a =
     (let x = nullish (acc_x a) (Fin 0);
          y = nullish (acc_y a) (Fin 0);
          z = nullish (acc_z a) (Fin 0)
      in js_sqrt (js_add (js_add (js_mul x x) (js_mul y y)) (js_mul z z)))"

definition lowpass :: "jsnum \<Rightarrow> jsnum \<Rightarrow> jsnum" where
  "lowpass current m = js_add (js_mul SMOOTHING current) (js_mul (js_sub (Fin 1) SMOOTHING) m)"

text \<open>
  The statements of \<^verbatim>\<open>handleMotion\<close> after its early return, for the reading \<open>a\<close>.
  \<open>now\<close> is the value \<^verbatim>\<open>Date.now()\<close> returns while the sample is handled, an integer
  number of milliseconds.
\<close>

definition processReading :: "variant \<Rightarrow> acceleration_reading \<Rightarrow> int \<Rightarrow> app \<Rightarrow> app" where
  "processReading v a now s =
     (let m = magnitude a;
          filtered = lowpass (filteredMagnitudeRef s) m;
          s1 = s\<lparr>filteredMagnitudeRef := filtered\<rparr>;
          delta = js_abs (js_sub m filtered)
      in if js_gt delta STEP_THRESHOLD \<and> now - lastStepAtRef s1 > MIN_STEP_INTERVAL_MS
         then s1\<lparr>lastStepAtRef := now, steps := steps s1 + stepIncrement v\<rparr>
         else s1)"

definition handleMotion :: "variant \<Rightarrow> DeviceMotionEvent \<Rightarrow> int \<Rightarrow> app \<Rightarrow> app" where
  "handleMotion v event now s =
     (case selectAcceleration event of
        None \<Rightarrow> s
      | Some a \<Rightarrow> processReading v a now s)"

text \<open>
  The same handler with the one operation of it that can throw written out: reading
  the properties \<^verbatim>\<open>x\<close>, \<^verbatim>\<open>y\<close> and \<^verbatim>\<open>z\<close> of \<^verbatim>\<open>acceleration\<close> throws a TypeError when
  \<^verbatim>\<open>acceleration\<close> is null. The arithmetic, \<^verbatim>\<open>Math.sqrt\<close>, \<^verbatim>\<open>Math.abs\<close>, \<^verbatim>\<open>Date.now\<close>, the
  assignments to the refs and \<^verbatim>\<open>setSteps\<close> do not throw.
\<close>

datatype js_error = TypeError

definition member :: "'a option \<Rightarrow> js_error + 'a" where
  "member obj = (case obj of None \<Rightarrow> Inl TypeError | Some a \<Rightarrow> Inr a)"

definition handleMotion_checked :: "variant \<Rightarrow> DeviceMotionEvent \<Rightarrow> int \<Rightarrow> app \<Rightarrow> js_error + app" where
  "handleMotion_checked v event now s =
     (let acceleration = selectAcceleration event
      in if acceleration = None then Inr s
         else case member acceleration of
                Inl e \<Rightarrow> Inl e
              | Inr a \<Rightarrow> Inr (processReading v a now s))"

section \<open>Permission and tracking lifecycle\<close>

text \<open>
  What the browser offers: \<open>motionAvailable\<close> is \<^verbatim>\<open>'DeviceMotionEvent' in window\<close>, and
  \<open>hasRequestPermission\<close> says that \<^verbatim>\<open>window.DeviceMotionEvent.requestPermission\<close> is a
  function.
\<close>

record platform =
  motionAvailable :: bool
  hasRequestPermission :: bool

definition apiError :: "platform \<Rightarrow> string option" where
  "apiError p = (if \<not> motionAvailable p then Some ''Device Motion API is not available in this browser.'' else None)"

text \<open>\<^verbatim>\<open>error || apiError\<close>: an empty string is falsy.\<close>

definition displayError :: "platform \<Rightarrow> app \<Rightarrow> string option" where
  "displayError p s = (case error s of Some e \<Rightarrow> (if e = [] then apiError p else Some e) | None \<Rightarrow> apiError p)"

definition issueRequest :: "requester \<Rightarrow> bool \<Rightarrow> app \<Rightarrow> app" where
  "issueRequest who captured s =
     s\<lparr>pendingRequests := pendingRequests s @ [(who, captured)],
       requestsIssued := requestsIssued s + 1\<rparr>"

subsection \<open>Basic variant\<close>

text \<open>
  The last four statements of \<^verbatim>\<open>startTracking\<close>. \<^verbatim>\<open>setSteps(0)\<close> is the start value of the
  counter in both variants.
\<close>

definition beginTracking :: "app \<Rightarrow> app" where
  "beginTracking s =
     s\<lparr>filteredMagnitudeRef := GRAVITY, lastStepAtRef := 0, steps := 0, isTracking := True,
       startCount := startCount s + 1\<rparr>"

text \<open>\<^verbatim>\<open>startTracking\<close> up to its \<^verbatim>\<open>await\<close>, and from the \<^verbatim>\<open>await\<close> on.\<close>

definition startTracking :: "platform \<Rightarrow> app \<Rightarrow> app" where
  "startTracking p s =
     (if \<not> motionAvailable p
      then s\<lparr>error := Some ''Device Motion API is not supported in this context.''\<rparr>
      else let s1 = s\<lparr>error := None\<rparr>
           in if hasRequestPermission p
              then issueRequest ByStartTracking (isTracking s1) (s1\<lparr>permissionState := pending\<rparr>)
              else beginTracking (s1\<lparr>permissionState := granted\<rparr>))"

definition startTracking_resume :: "promise_result \<Rightarrow> app \<Rightarrow> app" where
  "startTracking_resume r s =
     (case r of
        Resolved status \<Rightarrow>
          if status \<noteq> ''granted''
          then s\<lparr>permissionState := denied, error := Some ''Motion access was not granted.''\<rparr>
          else beginTracking (s\<lparr>permissionState := granted\<rparr>)
      | Rejected \<Rightarrow>
          s\<lparr>permissionState := denied, error := Some ''Motion permission request failed.''\<rparr>)"

text \<open>The effect "Auto-start tracking on mount (only once)".\<close>

definition autoStartEffect :: "platform \<Rightarrow> app \<Rightarrow> app" where
  "autoStartEffect p s =
     (if \<not> hasAutoStartedRef s \<and> motionAvailable p \<and> permissionState s = idle \<and> \<not> isTracking s
      then s\<lparr>hasAutoStartedRef := True, timeouts := timeouts s + 1\<rparr>
      else s)"

subsection \<open>Chat variant\<close>

text \<open>
  The block guarded by \<^verbatim>\<open>!hasAutoStartedRef.current && !isTracking\<close>, which occurs five
  times in \<^verbatim>\<open>client/src/App.tsx\<close>. The ref is read when the block runs; \<^verbatim>\<open>isTracking\<close> is
  the value the closure captured.
\<close>

definition autoStart :: "bool \<Rightarrow> app \<Rightarrow> app" where
  "autoStart capturedIsTracking s =
     (if \<not> hasAutoStartedRef s \<and> \<not> capturedIsTracking
      then beginTracking (s\<lparr>hasAutoStartedRef := True\<rparr>)
      else s)"

text \<open>The effect "Request permission immediately on mount", and its promise handlers.\<close>

definition mountEffect :: "platform \<Rightarrow> app \<Rightarrow> app" where
  "mountEffect p s =
     (if \<not> motionAvailable p \<or> permissionRequestedRef s then s
      else if hasRequestPermission p
           then issueRequest ByMountEffect (isTracking s) (s\<lparr>permissionRequestedRef := True\<rparr>)
           else autoStart (isTracking s) (s\<lparr>permissionRequestedRef := True, permissionState := granted\<rparr>))"

definition mountEffect_resume :: "bool \<Rightarrow> promise_result \<Rightarrow> app \<Rightarrow> app" where
  "mountEffect_resume capturedIsTracking r s =
     (case r of
        Resolved status \<Rightarrow>
          if status = ''granted''
          then autoStart capturedIsTracking (s\<lparr>permissionState := granted\<rparr>)
          else s\<lparr>permissionState := denied, error := Some ''Motion access was not granted.''\<rparr>
      | Rejected \<Rightarrow> s\<lparr>permissionRequestedRef := False\<rparr>)"

text \<open>
  The effect "Request permission on first user interaction": its cleanup removes the
  listeners of the previous run, and it registers new ones when the sensor exists and
  the permission state is idle. Both listeners are registered with \<^verbatim>\<open>once: true\<close>, so the
  browser removes the one that fires; the handler removes both when it has finished.
  The listeners of different runs of the effect are not told apart.
\<close>

definition interactionEffect :: "platform \<Rightarrow> app \<Rightarrow> app" where
  "interactionEffect p s =
     (if \<not> motionAvailable p \<or> permissionState s \<noteq> idle
      then s\<lparr>touchstartListener := None, clickListener := None\<rparr>
      else s\<lparr>touchstartListener := Some (isTracking s), clickListener := Some (isTracking s)\<rparr>)"

text \<open>\<^verbatim>\<open>handleFirstInteraction\<close> up to its \<^verbatim>\<open>await\<close>, and from the \<^verbatim>\<open>await\<close> on.\<close>

definition removeListeners :: "app \<Rightarrow> app" where
  "removeListeners s = s\<lparr>touchstartListener := None, clickListener := None\<rparr>"

definition handleFirstInteraction :: "platform \<Rightarrow> bool \<Rightarrow> app \<Rightarrow> app" where
  "handleFirstInteraction p capturedIsTracking s =
     (if permissionRequestedRef s then s
      else if hasRequestPermission p
           then issueRequest ByFirstInteraction capturedIsTracking
                  (s\<lparr>permissionRequestedRef := True, permissionState := pending\<rparr>)
           else removeListeners s)"

definition handleFirstInteraction_resume :: "bool \<Rightarrow> promise_result \<Rightarrow> app \<Rightarrow> app" where
  "handleFirstInteraction_resume capturedIsTracking r s =
     removeListeners
       (case r of
          Resolved status \<Rightarrow>
            if status = ''granted''
            then autoStart capturedIsTracking (s\<lparr>permissionState := granted\<rparr>)
            else s\<lparr>permissionState := denied, error := Some ''Motion access was not granted.''\<rparr>
        | Rejected \<Rightarrow>
            s\<lparr>permissionState := denied, error := Some ''Motion permission request failed.''\<rparr>)"

text \<open>\<^verbatim>\<open>handleRequestPermission\<close>, the handler of the button "Enable Step Tracking".\<close>

definition handleRequestPermission :: "platform \<Rightarrow> app \<Rightarrow> app" where
  "handleRequestPermission p s =
     (if \<not> motionAvailable p
      then s\<lparr>error := Some ''Device Motion API is not supported in this context.''\<rparr>
      else if hasRequestPermission p
           then issueRequest ByRequestPermission (isTracking s)
                  (s\<lparr>permissionState := pending, error := None\<rparr>)
           else autoStart (isTracking s) (s\<lparr>permissionState := granted\<rparr>))"

definition handleRequestPermission_resume :: "bool \<Rightarrow> promise_result \<Rightarrow> app \<Rightarrow> app" where
  "handleRequestPermission_resume capturedIsTracking r s =
     (case r of
        Resolved status \<Rightarrow>
          if status = ''granted''
          then autoStart capturedIsTracking (s\<lparr>permissionState := granted\<rparr>)
          else s\<lparr>permissionState := denied, error := Some ''Motion access was not granted.''\<rparr>
      | Rejected \<Rightarrow>
          s\<lparr>permissionState := denied, error := Some ''Motion permission request failed.''\<rparr>)"

subsection \<open>Events\<close>

text \<open>
  Everything happens on one thread, one event at a time: an effect runs, a scheduled
  timeout fires, the \<open>n\<close>-th unsettled promise settles, the user touches or clicks the
  window or clicks the button, or a \<^verbatim>\<open>devicemotion\<close> sample arrives (the listener is
  registered while \<^verbatim>\<open>isTracking\<close> holds). An effect may run at any time, which covers
  every schedule React can choose. An event that a variant has no code for changes
  nothing there: the basic variant has the auto-start effect and its timeout, the chat
  variant the two other effects, the gesture listeners and the button.
\<close>

datatype event =
    AutoStartEffect
  | TimeoutFires
  | MountEffect
  | InteractionEffect
  | Touchstart
  | Click
  | ButtonClick
  | PromiseSettles nat promise_result
  | DeviceMotion DeviceMotionEvent int

definition dropRequest :: "nat \<Rightarrow> app \<Rightarrow> app" where
  "dropRequest n s = s\<lparr>pendingRequests := take n (pendingRequests s) @ drop (Suc n) (pendingRequests s)\<rparr>"

fun resume :: "requester \<Rightarrow> bool \<Rightarrow> promise_result \<Rightarrow> app \<Rightarrow> app" where
  "resume ByStartTracking c r s = startTracking_resume r s"
| "resume ByMountEffect c r s = mountEffect_resume c r s"
| "resume ByFirstInteraction c r s = handleFirstInteraction_resume c r s"
| "resume ByRequestPermission c r s = handleRequestPermission_resume c r s"

definition settle :: "nat \<Rightarrow> promise_result \<Rightarrow> app \<Rightarrow> app" where
  "settle n r s =
     (if n < length (pendingRequests s)
      then resume (fst (pendingRequests s ! n)) (snd (pendingRequests s ! n)) r (dropRequest n s)
      else s)"

definition deliverMotion :: "variant \<Rightarrow> DeviceMotionEvent \<Rightarrow> int \<Rightarrow> app \<Rightarrow> app" where
  "deliverMotion v ev now s = (if isTracking s then handleMotion v ev now s else s)"

fun basic_step :: "platform \<Rightarrow> event \<Rightarrow> app \<Rightarrow> app" where
  "basic_step p AutoStartEffect s = autoStartEffect p s"
| "basic_step p TimeoutFires s =
     (if 0 < timeouts s then startTracking p (s\<lparr>timeouts := timeouts s - 1\<rparr>) else s)"
| "basic_step p (PromiseSettles n r) s = settle n r s"
| "basic_step p (DeviceMotion ev now) s = deliverMotion Basic ev now s"
| "basic_step p e s = s"

fun chat_step :: "platform \<Rightarrow> event \<Rightarrow> app \<Rightarrow> app" where
  "chat_step p MountEffect s = mountEffect p s"
| "chat_step p InteractionEffect s = interactionEffect p s"
| "chat_step p Touchstart s =
     (case touchstartListener s of
        None \<Rightarrow> s
      | Some c \<Rightarrow> handleFirstInteraction p c (s\<lparr>touchstartListener := None\<rparr>))"
| "chat_step p Click s =
     (case clickListener s of
        None \<Rightarrow> s
      | Some c \<Rightarrow> handleFirstInteraction p c (s\<lparr>clickListener := None\<rparr>))"
| "chat_step p ButtonClick s = handleRequestPermission p s"
| "chat_step p (PromiseSettles n r) s = settle n r s"
| "chat_step p (DeviceMotion ev now) s = deliverMotion Chat ev now s"
| "chat_step p e s = s"

fun app_step :: "variant \<Rightarrow> platform \<Rightarrow> event \<Rightarrow> app \<Rightarrow> app" where
  "app_step Basic = basic_step"
| "app_step Chat = chat_step"

fun run :: "variant \<Rightarrow> platform \<Rightarrow> event list \<Rightarrow> app \<Rightarrow> app" where
  "run v p [] s = s"
| "run v p (e # es) s = run v p es (app_step v p e s)"

section \<open>Observations used in the statements\<close>

text \<open>
  The deviation \<^verbatim>\<open>delta\<close> that \<^verbatim>\<open>handleMotion\<close> computes for a reading: the distance of its
  magnitude from the updated filter value.
\<close>

definition deviation :: "acceleration_reading \<Rightarrow> app \<Rightarrow> jsnum" where
  "deviation a s = js_abs (js_sub (magnitude a) (lowpass (filteredMagnitudeRef s) (magnitude a)))"

text \<open>A step is detected when the sample changes the counter.\<close>

definition stepDetected :: "variant \<Rightarrow> DeviceMotionEvent \<Rightarrow> int \<Rightarrow> app \<Rightarrow> bool" where
  "stepDetected v ev now s = (steps (handleMotion v ev now s) \<noteq> steps s)"

text \<open>A stream of samples, each with the time at which it is handled.\<close>

definition runSamples :: "variant \<Rightarrow> (DeviceMotionEvent \<times> int) list \<Rightarrow> app \<Rightarrow> app" where
  "runSamples v samples s = foldl (\<lambda>s (ev, now). handleMotion v ev now s) s samples"

text \<open>The times of the samples of a stream at which a step is detected, in order.\<close>

fun stepTimes :: "variant \<Rightarrow> (DeviceMotionEvent \<times> int) list \<Rightarrow> app \<Rightarrow> int list" where
  "stepTimes v [] s = []"
| "stepTimes v ((ev, now) # rest) s =
     (if stepDetected v ev now s then [now] else []) @ stepTimes v rest (handleMotion v ev now s)"

text \<open>The real a finite number denotes (0 for the special values).\<close>

fun finite_num :: "jsnum \<Rightarrow> bool" where
  "finite_num (Fin a) = True"
| "finite_num j = False"

fun val :: "jsnum \<Rightarrow> real" where
  "val (Fin a) = a"
| "val j = 0"

text \<open>A number that is not negative: \<^verbatim>\<open>Infinity\<close> or a finite number from 0 on.\<close>

definition nonneg_num :: "jsnum \<Rightarrow> bool" where
  "nonneg_num j \<longleftrightarrow> j = PInf \<or> (finite_num j \<and> 0 \<le> val j)"

text \<open>
  The readings a sensor can deliver: every axis is null or a finite number. Among them,
  the readings with an axis of absolute value \<open>b\<close> or more.
\<close>

definition finiteAxes :: "acceleration_reading \<Rightarrow> bool" where
  "finiteAxes a \<longleftrightarrow>
     finite_num (nullish (acc_x a) (Fin 0)) \<and> finite_num (nullish (acc_y a) (Fin 0)) \<and>
     finite_num (nullish (acc_z a) (Fin 0))"

definition axisBeyond :: "real \<Rightarrow> acceleration_reading \<Rightarrow> bool" where
  "axisBeyond b a \<longleftrightarrow>
     b \<le> \<bar>val (nullish (acc_x a) (Fin 0))\<bar> \<or> b \<le> \<bar>val (nullish (acc_y a) (Fin 0))\<bar> \<or>
     b \<le> \<bar>val (nullish (acc_z a) (Fin 0))\<bar>"

text \<open>Every sample of the stream carries a reading of magnitude \<open>m\<close>.\<close>

definition constantMagnitude :: "real \<Rightarrow> (DeviceMotionEvent \<times> int) list \<Rightarrow> bool" where
  "constantMagnitude m samples =
     list_all (\<lambda>(ev, now). case selectAcceleration ev of None \<Rightarrow> False | Some a \<Rightarrow> magnitude a = Fin m)
       samples"

text \<open>
  Sample events: a device at rest that reports only the reading without gravity, a
  device at rest that reports gravity on its z axis, a reading whose three axes are all
  null, a reading with a finite x axis far beyond any sensor's range (\<open>2^600\<close>, a
  double), two readings with a large z axis (the doubles \<^verbatim>\<open>0x1.f9ebdac7131a3p+54\<close> and
  \<^verbatim>\<open>0x1.3c3368bc6bf05p+57\<close>), and an event without any reading.
\<close>

definition restReading :: acceleration_reading where
  "restReading = \<lparr>acc_x = Some (Fin 0), acc_y = Some (Fin 0), acc_z = Some (Fin 0)\<rparr>"

definition restEvent :: DeviceMotionEvent where
  "restEvent = \<lparr>accelerationIncludingGravity = None, acceleration = Some restReading\<rparr>"

definition gravityReading :: acceleration_reading where
  "gravityReading = \<lparr>acc_x = None, acc_y = None, acc_z = Some GRAVITY\<rparr>"

definition gravityEvent :: DeviceMotionEvent where
  "gravityEvent = \<lparr>accelerationIncludingGravity = Some gravityReading, acceleration = None\<rparr>"

definition allNullReading :: acceleration_reading where
  "allNullReading = \<lparr>acc_x = None, acc_y = None, acc_z = None\<rparr>"

definition allNullEvent :: DeviceMotionEvent where
  "allNullEvent = \<lparr>accelerationIncludingGravity = Some allNullReading, acceleration = None\<rparr>"

definition hugeReading :: acceleration_reading where
  "hugeReading = \<lparr>acc_x = Some (Fin (2 ^ 600)), acc_y = Some (Fin 0), acc_z = Some GRAVITY\<rparr>"

definition hugeEvent :: DeviceMotionEvent where
  "hugeEvent = \<lparr>accelerationIncludingGravity = Some hugeReading, acceleration = None\<rparr>"

definition bigReading :: acceleration_reading where
  "bigReading = \<lparr>acc_x = None, acc_y = None, acc_z = Some (Fin 35601047028549260)\<rparr>"

definition bigEvent :: DeviceMotionEvent where
  "bigEvent = \<lparr>accelerationIncludingGravity = Some bigReading, acceleration = None\<rparr>"

definition surgeReading :: acceleration_reading where
  "surgeReading = \<lparr>acc_x = None, acc_y = None, acc_z = Some (Fin 178005235142746272)\<rparr>"

definition surgeEvent :: DeviceMotionEvent where
  "surgeEvent = \<lparr>accelerationIncludingGravity = Some surgeReading, acceleration = None\<rparr>"

definition emptyEvent :: DeviceMotionEvent where
  "emptyEvent = \<lparr>accelerationIncludingGravity = None, acceleration = None\<rparr>"

text \<open>The first \<open>n\<close> samples of a device at rest, one every 500 ms.\<close>

definition restStream :: "nat \<Rightarrow> (DeviceMotionEvent \<times> int) list" where
  "restStream n = map (\<lambda>k. (restEvent, 1700000000000 + 500 * int k)) [0..<n]"

text \<open>
  How an event can change what tracking is about: either the start counter, the step
  counter, the tracking flag and the filter state all stay, or the block that starts
  tracking has run.
\<close>

definition sameTracking :: "app \<Rightarrow> app \<Rightarrow> bool" where
  "sameTracking s s' \<longleftrightarrow>
     startCount s' = startCount s \<and> steps s' = steps s \<and> isTracking s' = isTracking s \<and>
     filteredMagnitudeRef s' = filteredMagnitudeRef s \<and> lastStepAtRef s' = lastStepAtRef s"

definition freshStart :: "app \<Rightarrow> app \<Rightarrow> bool" where
  "freshStart s s' \<longleftrightarrow>
     startCount s' = startCount s + 1 \<and> steps s' = 0 \<and> isTracking s' \<and>
     filteredMagnitudeRef s' = GRAVITY \<and> lastStepAtRef s' = 0"

text \<open>
  Invariants of the states the two variants can reach. In the chat variant the ref
  \<^verbatim>\<open>hasAutoStartedRef\<close> and the state \<^verbatim>\<open>isTracking\<close> change together, and a closure can
  have captured \<^verbatim>\<open>isTracking = true\<close> only if tracking has started. In the basic variant
  the ref allows one call of \<^verbatim>\<open>startTracking\<close>, which is scheduled, waiting for its
  promise, or has started tracking.
\<close>

definition chatInv :: "app \<Rightarrow> bool" where
  "chatInv s \<longleftrightarrow>
     startCount s = (if hasAutoStartedRef s then 1 else 0) \<and>
     isTracking s = hasAutoStartedRef s \<and>
     list_all (\<lambda>(who, c). who \<noteq> ByStartTracking \<and> (c \<longrightarrow> isTracking s)) (pendingRequests s) \<and>
     (touchstartListener s = Some True \<longrightarrow> isTracking s) \<and>
     (clickListener s = Some True \<longrightarrow> isTracking s)"

definition basicInv :: "app \<Rightarrow> bool" where
  "basicInv s \<longleftrightarrow>
     timeouts s + length (pendingRequests s) + startCount s \<le> (if hasAutoStartedRef s then 1 else 0) \<and>
     isTracking s = (startCount s = 1) \<and>
     list_all (\<lambda>(who, c). who = ByStartTracking) (pendingRequests s)"

fun appInv :: "variant \<Rightarrow> app \<Rightarrow> bool" where
  "appInv Basic = basicInv"
| "appInv Chat = chatInv"

text \<open>
  The states the chat variant passes through while the button has not been clicked:
  nothing has been requested and the state is idle, or the request of the mount effect
  is the only one pending and the state is idle, or \<^verbatim>\<open>permissionRequestedRef\<close> is set for
  good and no request of the mount effect is pending.
\<close>

definition mountPhase :: "app \<Rightarrow> bool" where
  "mountPhase s \<longleftrightarrow>
     (pendingRequests s = [] \<and> \<not> permissionRequestedRef s \<and> permissionState s = idle) \<or>
     (map fst (pendingRequests s) = [ByMountEffect] \<and> permissionRequestedRef s \<and>
      permissionState s = idle) \<or>
     (permissionRequestedRef s \<and> ByMountEffect \<notin> set (map fst (pendingRequests s)))"

text \<open>
  Without the sensor nothing is requested, scheduled, registered or started, and the only
  message set is that of \<^verbatim>\<open>handleRequestPermission\<close> and \<^verbatim>\<open>startTracking\<close>.
\<close>

definition missingInv :: "app \<Rightarrow> bool" where
  "missingInv s \<longleftrightarrow>
     permissionState s = idle \<and> requestsIssued s = 0 \<and> pendingRequests s = [] \<and>
     timeouts s = 0 \<and> \<not> isTracking s \<and> startCount s = 0 \<and>
     touchstartListener s = None \<and> clickListener s = None \<and>
     (error s = None \<or> error s = Some ''Device Motion API is not supported in this context.'')"

text \<open>
  Sample platforms: no sensor at all, a browser with the sensor and without
  \<^verbatim>\<open>requestPermission\<close>, and a browser with the sensor behind \<^verbatim>\<open>requestPermission\<close>.
\<close>

definition noSensor :: platform where
  "noSensor = \<lparr>motionAvailable = False, hasRequestPermission = False\<rparr>"

definition openSensor :: platform where
  "openSensor = \<lparr>motionAvailable = True, hasRequestPermission = False\<rparr>"

definition gatedSensor :: platform where
  "gatedSensor = \<lparr>motionAvailable = True, hasRequestPermission = True\<rparr>"

text \<open>The events that are triggers of the lifecycle: all but the motion samples.\<close>

fun isTrigger :: "event \<Rightarrow> bool" where
  "isTrigger (DeviceMotion ev now) = False"
| "isTrigger e = True"

text \<open>
  Sample states: a state that is not tracking and holds a filter value, a time of the last
  step and a count left from earlier samples, and a state that is tracking.
\<close>

definition staleApp :: "variant \<Rightarrow> app" where
  "staleApp v = (initialApp v)\<lparr>steps := 42, filteredMagnitudeRef := Fin 3, lastStepAtRef := 1699999999900\<rparr>"

definition trackingApp :: "variant \<Rightarrow> app" where
  "trackingApp v = run v openSensor [AutoStartEffect, TimeoutFires, MountEffect] (initialApp v)"

section \<open>Rounding\<close>

lemma rne_near: "\<bar>of_int (rne q) - q\<bar> \<le> 1/2"
proof -
  have "of_int \<lfloor>q\<rfloor> \<le> q" "q < of_int \<lfloor>q\<rfloor> + 1" by linarith+
  then show ?thesis by (auto simp: rne_def Let_def)
qed

lemma rne_nonneg: "0 \<le> q \<Longrightarrow> 0 \<le> rne q"
  by (auto simp: rne_def Let_def)

lemma rne_nonpos: "q \<le> 0 \<Longrightarrow> rne q \<le> 0"
proof -
  assume q: "q \<le> 0"
  show ?thesis
  proof (cases "q = 0")
    case True
    then show ?thesis by (simp add: rne_def)
  next
    case False
    with q have "q < 0" by simp
    then have "\<lfloor>q\<rfloor> \<le> - 1" by (simp add: floor_le_iff)
    then show ?thesis by (auto simp: rne_def Let_def)
  qed
qed

lemma rne_unique: "\<bar>q - of_int n\<bar> < 1/2 \<Longrightarrow> rne q = n"
proof -
  assume h: "\<bar>q - of_int n\<bar> < 1/2"
  have n: "\<lfloor>q\<rfloor> = n \<or> \<lfloor>q\<rfloor> = n - 1"
  proof -
    from h have "of_int (n - 1) \<le> q" "q < of_int (n + 1)" by (simp; linarith)+
    then have "n - 1 \<le> \<lfloor>q\<rfloor>" "\<lfloor>q\<rfloor> < n + 1"
      unfolding le_floor_iff floor_less_iff by simp_all
    then show ?thesis by linarith
  qed
  then show ?thesis
  proof
    assume f: "\<lfloor>q\<rfloor> = n"
    then have "of_int n \<le> q" by (metis of_int_floor_le)
    with h f show ?thesis by (auto simp: rne_def Let_def abs_less_iff)
  next
    assume f: "\<lfloor>q\<rfloor> = n - 1"
    then have "q < of_int n" using floor_less_iff[of q n] by simp
    with h f show ?thesis by (auto simp: rne_def Let_def abs_less_iff)
  qed
qed

lemma ulp_pos: "0 < ulp x"
  by (simp add: ulp_def)

lemma round_error: "\<bar>of_int (rne (x / ulp x)) * ulp x - x\<bar> \<le> ulp x / 2"
proof -
  have "of_int (rne (x / ulp x)) * ulp x - x = (of_int (rne (x / ulp x)) - x / ulp x) * ulp x"
    using ulp_pos[of x] by (simp add: field_simps)
  then have "\<bar>of_int (rne (x / ulp x)) * ulp x - x\<bar> = \<bar>of_int (rne (x / ulp x)) - x / ulp x\<bar> * ulp x"
    using ulp_pos[of x] by (simp add: abs_mult)
  also have "\<dots> \<le> 1/2 * ulp x"
    by (rule mult_right_mono[OF rne_near]) (simp add: ulp_pos less_imp_le)
  finally show ?thesis by simp
qed

lemma exponent_le:
  assumes "x \<noteq> 0" "\<bar>x\<bar> \<le> 2 powr of_int k" "- 1022 \<le> k"
  shows "exponent x \<le> k"
proof -
  from assms(1,2) have "log 2 \<bar>x\<bar> \<le> of_int k"
    by (simp add: log_le_iff)
  then have "\<lfloor>log 2 \<bar>x\<bar>\<rfloor> \<le> k" by (simp add: floor_le_iff)
  with assms(3) show ?thesis by (simp add: exponent_def)
qed

lemma ulp_le:
  assumes "x \<noteq> 0" "\<bar>x\<bar> \<le> 2 powr of_int k" "- 1022 \<le> k"
  shows "ulp x \<le> 2 powr of_int (k - 52)"
  using exponent_le[OF assms] by (simp add: ulp_def)


lemma js_round_zero: "js_round 0 = Fin 0"
  by (simp add: js_round_def)

lemma rounded_sign:
  "(0 \<le> x \<longrightarrow> 0 \<le> of_int (rne (x / ulp x)) * ulp x) \<and>
   (x \<le> 0 \<longrightarrow> of_int (rne (x / ulp x)) * ulp x \<le> 0)"
proof (intro conjI impI)
  assume "0 \<le> x"
  then have "0 \<le> x / ulp x" using ulp_pos[of x] by simp
  then have "0 \<le> rne (x / ulp x)" by (rule rne_nonneg)
  then show "0 \<le> of_int (rne (x / ulp x)) * ulp x" using ulp_pos[of x] by simp
next
  assume "x \<le> 0"
  then have "x / ulp x \<le> 0" using ulp_pos[of x] by (simp add: divide_le_0_iff)
  then have "rne (x / ulp x) \<le> 0" by (rule rne_nonpos)
  then show "of_int (rne (x / ulp x)) * ulp x \<le> 0"
    using ulp_pos[of x] by (simp add: mult_le_0_iff)
qed

lemma two_powr_Suc: "(2::real) powr of_int (k + 1) = 2 * 2 powr of_int k"
proof -
  have "(2::real) powr of_int (k + 1) = 2 powr (1 + of_int k)" by (simp add: add.commute)
  also have "\<dots> = 2 powr 1 * 2 powr of_int k" by (rule powr_add)
  finally show ?thesis by simp
qed

lemma js_round_near_k:
  assumes "\<bar>x\<bar> \<le> 2 powr of_int k" "- 1022 \<le> k" "k \<le> 1000"
  shows "js_round x = Fin (val (js_round x)) \<and> \<bar>val (js_round x) - x\<bar> \<le> 2 powr of_int (k - 53) \<and>
         (0 \<le> x \<longrightarrow> 0 \<le> val (js_round x)) \<and> (x \<le> 0 \<longrightarrow> val (js_round x) \<le> 0)"
proof (cases "x = 0")
  case True
  then show ?thesis by (simp add: js_round_zero)
next
  case False
  define y where "y = of_int (rne (x / ulp x)) * ulp x"
  have u: "ulp x \<le> 2 powr of_int (k - 52)" by (rule ulp_le[OF False assms(1,2)])
  have "(2::real) powr of_int (k - 52) = 2 * 2 powr of_int (k - 53)"
    using two_powr_Suc[of "k - 53"] by simp
  with u round_error[of x] have err: "\<bar>y - x\<bar> \<le> 2 powr of_int (k - 53)"
    by (simp add: y_def)
  have "2 powr of_int (k - 53) \<le> (2::real) powr of_int k" by (simp add: powr_mono)
  with err assms(1) have "\<bar>y\<bar> \<le> 2 * 2 powr of_int k" by linarith
  also have "\<dots> = 2 powr of_int (k + 1)" by (simp only: two_powr_Suc)
  also have "\<dots> \<le> 2 powr of_int 1001" using assms(3) by (intro powr_mono) simp_all
  also have "\<dots> < 2 powr of_int 1024" by (intro powr_less_mono) simp_all
  also have "\<dots> = 2 ^ 1024" by (simp add: powr_realpow)
  finally have fin: "\<not> 2 ^ 1024 \<le> \<bar>y\<bar>" by simp
  then have r: "js_round x = Fin y" using False by (simp add: js_round_def y_def Let_def)
  from rounded_sign[of x] have "(0 \<le> x \<longrightarrow> 0 \<le> y) \<and> (x \<le> 0 \<longrightarrow> y \<le> 0)" by (simp add: y_def)
  with r err show ?thesis by simp
qed

lemma js_round_4096:
  assumes "\<bar>x\<bar> \<le> 4096"
  shows "js_round x = Fin (val (js_round x)) \<and> \<bar>val (js_round x) - x\<bar> \<le> 1 / 2 ^ 41 \<and>
         (0 \<le> x \<longrightarrow> 0 \<le> val (js_round x)) \<and> (x \<le> 0 \<longrightarrow> val (js_round x) \<le> 0)"
proof -
  have a: "(2::real) powr of_int 12 = 4096" by (simp add: powr_realpow)
  have b: "(2::real) powr of_int (12 - 53) = 1 / 2 ^ 41" by (simp add: powr_minus_divide powr_realpow)
  from js_round_near_k[of x 12] assms show ?thesis unfolding a b by simp
qed

lemma js_round_2p22:
  assumes "\<bar>x\<bar> \<le> 4194304"
  shows "js_round x = Fin (val (js_round x)) \<and> \<bar>val (js_round x) - x\<bar> \<le> 1 / 2 ^ 31 \<and>
         (0 \<le> x \<longrightarrow> 0 \<le> val (js_round x)) \<and> (x \<le> 0 \<longrightarrow> val (js_round x) \<le> 0)"
proof -
  have a: "(2::real) powr of_int 22 = 4194304" by (simp add: powr_realpow)
  have b: "(2::real) powr of_int (22 - 53) = 1 / 2 ^ 31" by (simp add: powr_minus_divide powr_realpow)
  from js_round_near_k[of x 22] assms show ?thesis unfolding a b by simp
qed

lemma exponent_ge:
  assumes "2 powr of_int k \<le> \<bar>x\<bar>"
  shows "k \<le> exponent x"
proof -
  have "0 < (2::real) powr of_int k" by simp
  with assms have "0 < \<bar>x\<bar>" by linarith
  with assms have "of_int k \<le> log 2 \<bar>x\<bar>" by (simp add: le_log_iff)
  then have "k \<le> \<lfloor>log 2 \<bar>x\<bar>\<rfloor>" by (simp add: le_floor_iff)
  then show ?thesis by (simp add: exponent_def)
qed

lemma exponent_below: "x \<noteq> 0 \<Longrightarrow> - 1022 < exponent x \<Longrightarrow> 2 powr of_int (exponent x) \<le> \<bar>x\<bar>"
proof -
  assume x: "x \<noteq> 0" and e: "- 1022 < exponent x"
  then have "exponent x = \<lfloor>log 2 \<bar>x\<bar>\<rfloor>" by (simp add: exponent_def max_def split: if_splits)
  then have "of_int (exponent x) \<le> log 2 \<bar>x\<bar>" by simp
  with x show ?thesis by (simp add: le_log_iff)
qed

lemma js_round_overflow:
  assumes "2 ^ 1024 \<le> x"
  shows "js_round x = PInf"
proof -
  have "(0::real) < 2 ^ 1024" by simp
  with assms have x: "0 < x" by linarith
  have "(2::real) powr of_int 1024 = 2 ^ 1024" by (simp add: powr_realpow)
  with assms x have e: "1024 \<le> exponent x" by (intro exponent_ge) simp
  then have low: "2 powr of_int (exponent x) \<le> x"
    using exponent_below[of x] x by simp
  have "2 powr of_int (exponent x) = 2 powr 52 * ulp x"
  proof -
    have "of_int (exponent x) = 52 + (of_int (exponent x - 52) :: real)" by simp
    then have "(2::real) powr of_int (exponent x) = 2 powr (52 + of_int (exponent x - 52))"
      by simp
    then show ?thesis unfolding ulp_def by (simp only: powr_add)
  qed
  with low have "2 powr 52 \<le> x / ulp x" using ulp_pos[of x] by (simp add: pos_le_divide_eq)
  then have "(2::real) ^ 52 \<le> x / ulp x" by (simp add: powr_realpow)
  then have "(2::int) ^ 52 \<le> \<lfloor>x / ulp x\<rfloor>" by (simp add: le_floor_iff)
  moreover have "\<lfloor>x / ulp x\<rfloor> \<le> rne (x / ulp x)" by (auto simp: rne_def Let_def)
  ultimately have "(2::int) ^ 52 \<le> rne (x / ulp x)" by linarith
  then have "(2::real) ^ 52 \<le> of_int (rne (x / ulp x))"
    by (metis of_int_le_iff of_int_numeral of_int_power)
  then have "2 powr 52 * ulp x \<le> of_int (rne (x / ulp x)) * ulp x"
    using ulp_pos[of x] by (simp add: powr_realpow)
  with \<open>2 powr of_int (exponent x) = 2 powr 52 * ulp x\<close>
  have "2 powr of_int (exponent x) \<le> of_int (rne (x / ulp x)) * ulp x" by simp
  moreover have "(2::real) powr of_int 1024 \<le> 2 powr of_int (exponent x)"
    using e by (intro powr_mono) simp_all
  ultimately have "2 ^ 1024 \<le> of_int (rne (x / ulp x)) * ulp x"
    using \<open>(2::real) powr of_int 1024 = 2 ^ 1024\<close> by linarith
  then have "2 ^ 1024 \<le> \<bar>of_int (rne (x / ulp x)) * ulp x\<bar>" by linarith
  with x show ?thesis by (simp add: js_round_def Let_def)
qed

lemma js_round_exact:
  assumes "2 powr of_int e \<le> \<bar>x\<bar>" "\<bar>x\<bar> < 2 powr of_int (e + 1)" "- 1022 \<le> e"
    and "u = 2 powr of_int (e - 52)" "\<bar>x / u - of_int n\<bar> < 1/2" "\<bar>of_int n * u\<bar> < 2 ^ 1024"
  shows "js_round x = Fin (of_int n * u)"
proof -
  have "0 < (2::real) powr of_int e" by simp
  with assms(1) have "0 < \<bar>x\<bar>" by linarith
  then have x: "x \<noteq> 0" by simp
  have "0 < \<bar>x\<bar>" using x by simp
  with assms(1,2) have "of_int e \<le> log 2 \<bar>x\<bar>" "log 2 \<bar>x\<bar> < of_int (e + 1)"
    by (simp_all add: le_log_iff log_less_iff)
  then have "\<lfloor>log 2 \<bar>x\<bar>\<rfloor> = e" by (intro floor_unique) simp_all
  with assms(3) have "exponent x = e" by (simp add: exponent_def)
  then have u: "ulp x = u" by (simp add: ulp_def assms(4))
  from assms(5) have "rne (x / u) = n" by (rule rne_unique)
  with u assms(6) x show ?thesis by (simp add: js_round_def Let_def)
qed

section \<open>The step counter\<close>

lemma stepIncrement_pos: "0 < stepIncrement v"
  by (cases v) simp_all

lemma handleMotion_no_reading:
  "selectAcceleration ev = None \<Longrightarrow> handleMotion v ev now s = s"
  by (simp add: handleMotion_def)

lemma handleMotion_reading:
  "selectAcceleration ev = Some a \<Longrightarrow>
   handleMotion v ev now s =
     (if js_gt (deviation a s) STEP_THRESHOLD \<and> now - lastStepAtRef s > MIN_STEP_INTERVAL_MS
      then s\<lparr>filteredMagnitudeRef := lowpass (filteredMagnitudeRef s) (magnitude a),
             lastStepAtRef := now, steps := steps s + stepIncrement v\<rparr>
      else s\<lparr>filteredMagnitudeRef := lowpass (filteredMagnitudeRef s) (magnitude a)\<rparr>)"
  by (simp add: handleMotion_def processReading_def deviation_def Let_def)

lemma stepDetected_iff:
  "selectAcceleration ev = Some a \<Longrightarrow>
   stepDetected v ev now s \<longleftrightarrow>
     js_gt (deviation a s) STEP_THRESHOLD \<and> now - lastStepAtRef s > MIN_STEP_INTERVAL_MS"
  using stepIncrement_pos[of v] by (simp add: stepDetected_def handleMotion_reading)

lemma stepDetected_no_reading:
  "selectAcceleration ev = None \<Longrightarrow> \<not> stepDetected v ev now s"
  by (simp add: stepDetected_def handleMotion_no_reading)

lemma stepDetected_elapsed:
  "stepDetected v ev now s \<Longrightarrow> now - lastStepAtRef s > 400"
  by (cases "selectAcceleration ev")
     (auto simp: stepDetected_iff stepDetected_no_reading MIN_STEP_INTERVAL_MS_def)

lemma lastStepAtRef_handleMotion:
  "lastStepAtRef (handleMotion v ev now s) = (if stepDetected v ev now s then now else lastStepAtRef s)"
  by (cases "selectAcceleration ev")
     (auto simp: stepDetected_iff stepDetected_no_reading handleMotion_reading handleMotion_no_reading)

lemma stepTimes_after_last:
  "t \<in> set (stepTimes v samples s) \<Longrightarrow> t - lastStepAtRef s > 400"
proof (induction samples arbitrary: s)
  case Nil
  then show ?case by simp
next
  case (Cons sample samples)
  obtain ev now where sample: "sample = (ev, now)" by (cases sample)
  show ?case
  proof (cases "t \<in> set (stepTimes v samples (handleMotion v ev now s))")
    case True
    from Cons.IH[OF True] have "t - lastStepAtRef (handleMotion v ev now s) > 400" .
    then show ?thesis
      using stepDetected_elapsed[of v ev now s]
      by (auto simp: lastStepAtRef_handleMotion split: if_splits)
  next
    case False
    with Cons.prems sample have "stepDetected v ev now s" "t = now"
      by (auto split: if_splits)
    then show ?thesis using stepDetected_elapsed by blast
  qed
qed

lemma stepTimes_spaced:
  "sorted_wrt (\<lambda>t t'. t' - t > 400) (stepTimes v samples s)"
proof (induction samples arbitrary: s)
  case Nil
  then show ?case by simp
next
  case (Cons sample samples)
  obtain ev now where sample: "sample = (ev, now)" by (cases sample)
  show ?case
    using Cons.IH[of "handleMotion v ev now s"]
          stepTimes_after_last[of _ v samples "handleMotion v ev now s"]
    by (auto simp: sample lastStepAtRef_handleMotion)
qed

lemma runSamples_Nil: "runSamples v [] s = s"
  by (simp add: runSamples_def)

lemma runSamples_Cons: "runSamples v ((ev, now) # rest) s = runSamples v rest (handleMotion v ev now s)"
  by (simp add: runSamples_def)

lemma runSamples_append: "runSamples v (pre @ post) s = runSamples v post (runSamples v pre s)"
  by (simp add: runSamples_def)

lemma filtered_handleMotion_reading:
  "selectAcceleration ev = Some a \<Longrightarrow>
   filteredMagnitudeRef (handleMotion v ev now s) = lowpass (filteredMagnitudeRef s) (magnitude a)"
  by (simp add: handleMotion_reading)

lemma stepTimes_append:
  "stepTimes v (pre @ post) s = stepTimes v pre s @ stepTimes v post (runSamples v pre s)"
  by (induction pre arbitrary: s) (auto simp: runSamples_Nil runSamples_Cons)

lemma constantMagnitude_append:
  "constantMagnitude m (pre @ post) \<longleftrightarrow> constantMagnitude m pre \<and> constantMagnitude m post"
  by (simp add: constantMagnitude_def)

lemma steps_handleMotion:
  "steps (handleMotion v ev now s) = (if stepDetected v ev now s then steps s + stepIncrement v else steps s)"
proof (cases "selectAcceleration ev")
  case None
  then show ?thesis by (simp add: stepDetected_no_reading handleMotion_no_reading)
next
  case (Some a)
  then show ?thesis by (simp add: stepDetected_iff handleMotion_reading)
qed

lemma steps_runSamples:
  "steps (runSamples v samples s) = steps s + stepIncrement v * int (length (stepTimes v samples s))"
proof (induction samples arbitrary: s)
  case Nil
  then show ?case by (simp add: runSamples_Nil)
next
  case (Cons sample samples)
  obtain ev now where sample: "sample = (ev, now)" by (cases sample)
  show ?case
    by (simp add: sample runSamples_Cons Cons.IH steps_handleMotion algebra_simps)
qed

lemma select_restEvent: "selectAcceleration restEvent = Some restReading"
  by (simp add: restEvent_def selectAcceleration_def)

lemma select_gravityEvent: "selectAcceleration gravityEvent = Some gravityReading"
  by (simp add: gravityEvent_def selectAcceleration_def)

subsection \<open>Error bounds in the range of a sensor\<close>

lemma js_round_small:
  assumes "\<bar>x\<bar> \<le> 8192"
  shows "js_round x = Fin (val (js_round x))"
    and "\<bar>val (js_round x) - x\<bar> \<le> 1 / 1000000000000"
    and "0 \<le> x \<Longrightarrow> 0 \<le> val (js_round x)"
proof -
  have a: "(2::real) powr of_int 13 = 8192" by (simp add: powr_realpow)
  have b: "(2::real) powr of_int (13 - 53) = 1 / 2 ^ 40" by (simp add: powr_minus_divide powr_realpow)
  have c: "(1::real) / 2 ^ 40 \<le> 1 / 1000000000000" by simp
  from js_round_near_k[of x 13] assms
  have r: "js_round x = Fin (val (js_round x))" and e: "\<bar>val (js_round x) - x\<bar> \<le> 1 / 2 ^ 40"
    and s: "0 \<le> x \<longrightarrow> 0 \<le> val (js_round x)"
    unfolding a b by simp_all
  show "js_round x = Fin (val (js_round x))" by (rule r)
  from e c show "\<bar>val (js_round x) - x\<bar> \<le> 1 / 1000000000000" by linarith
  from s show "0 \<le> x \<Longrightarrow> 0 \<le> val (js_round x)" by simp
qed

lemma SMOOTHING_val:
  "SMOOTHING = Fin (val SMOOTHING)" "\<bar>val SMOOTHING - 4/5\<bar> \<le> 1 / 1000000000000"
  using js_round_small(1,2)[of "0.8"] by (simp_all add: SMOOTHING_def)

lemma STEP_THRESHOLD_val:
  "STEP_THRESHOLD = Fin (val STEP_THRESHOLD)" "\<bar>val STEP_THRESHOLD - 11/10\<bar> \<le> 1 / 1000000000000"
  using js_round_small(1,2)[of "1.1"] by (simp_all add: STEP_THRESHOLD_def)

lemma GRAVITY_val:
  "GRAVITY = Fin (val GRAVITY)" "\<bar>val GRAVITY - 981/100\<bar> \<le> 1 / 1000000000000"
  using js_round_small(1,2)[of "9.81"] by (simp_all add: GRAVITY_def)

lemma complement_val:
  "js_sub (Fin 1) SMOOTHING = Fin (val (js_sub (Fin 1) SMOOTHING))"
  "\<bar>val (js_sub (Fin 1) SMOOTHING) - 1/5\<bar> \<le> 2 / 1000000000000"
proof -
  have s: "js_sub (Fin 1) SMOOTHING = js_round (1 - val SMOOTHING)"
    by (subst SMOOTHING_val(1)) (simp add: js_sub_def)
  have "\<bar>1 - val SMOOTHING\<bar> \<le> 8192" using SMOOTHING_val(2) by linarith
  from js_round_small(1,2)[OF this] s
  have a: "js_sub (Fin 1) SMOOTHING = Fin (val (js_sub (Fin 1) SMOOTHING))"
    and b: "\<bar>val (js_sub (Fin 1) SMOOTHING) - (1 - val SMOOTHING)\<bar> \<le> 1 / 1000000000000"
    by simp_all
  show "js_sub (Fin 1) SMOOTHING = Fin (val (js_sub (Fin 1) SMOOTHING))" by (rule a)
  from b SMOOTHING_val(2) show "\<bar>val (js_sub (Fin 1) SMOOTHING) - 1/5\<bar> \<le> 2 / 1000000000000"
    by linarith
qed

lemma scaled_bound:
  fixes c c0 x e b :: real
  assumes "\<bar>c - c0\<bar> \<le> e" "\<bar>x\<bar> \<le> b"
  shows "\<bar>c * x - c0 * x\<bar> \<le> e * b"
proof -
  have "0 \<le> e" using assms(1) by linarith
  have "\<bar>c * x - c0 * x\<bar> = \<bar>c - c0\<bar> * \<bar>x\<bar>" by (simp add: abs_mult[symmetric] left_diff_distrib)
  also have "\<dots> \<le> e * b" using assms \<open>0 \<le> e\<close> by (intro mult_mono) simp_all
  finally show ?thesis .
qed

lemma lowpass_near:
  assumes "\<bar>f\<bar> \<le> 4000" "\<bar>m\<bar> \<le> 4000"
  shows "lowpass (Fin f) (Fin m) = Fin (val (lowpass (Fin f) (Fin m)))"
    and "\<bar>val (lowpass (Fin f) (Fin m)) - (4/5 * f + 1/5 * m)\<bar> \<le> 1 / 10000000"
proof -
  define c8 where "c8 = val SMOOTHING"
  define c2 where "c2 = val (js_sub (Fin 1) SMOOTHING)"
  define p1 where "p1 = val (js_round (c8 * f))"
  define p2 where "p2 = val (js_round (c2 * m))"
  have c8: "\<bar>c8 - 4/5\<bar> \<le> 1 / 1000000000000" unfolding c8_def by (rule SMOOTHING_val(2))
  have c2: "\<bar>c2 - 1/5\<bar> \<le> 2 / 1000000000000" unfolding c2_def by (rule complement_val(2))
  have e1: "\<bar>c8 * f - 4/5 * f\<bar> \<le> 1 / 1000000000000 * 4000"
    by (rule scaled_bound[OF c8 assms(1)])
  have e2: "\<bar>c2 * m - 1/5 * m\<bar> \<le> 2 / 1000000000000 * 4000"
    by (rule scaled_bound[OF c2 assms(2)])
  have b1: "\<bar>c8 * f\<bar> \<le> 3201" using e1 assms(1) by linarith
  have b2: "\<bar>c2 * m\<bar> \<le> 801" using e2 assms(2) by linarith
  from b1 have "\<bar>c8 * f\<bar> \<le> 8192" by linarith
  from js_round_small(1,2)[OF this]
  have r1: "js_round (c8 * f) = Fin p1" and d1: "\<bar>p1 - c8 * f\<bar> \<le> 1 / 1000000000000"
    by (simp_all add: p1_def)
  from b2 have "\<bar>c2 * m\<bar> \<le> 8192" by linarith
  from js_round_small(1,2)[OF this]
  have r2: "js_round (c2 * m) = Fin p2" and d2: "\<bar>p2 - c2 * m\<bar> \<le> 1 / 1000000000000"
    by (simp_all add: p2_def)
  have lp: "lowpass (Fin f) (Fin m) = js_round (p1 + p2)"
    unfolding lowpass_def
    by (subst SMOOTHING_val(1), subst complement_val(1))
       (simp add: c8_def[symmetric] c2_def[symmetric] r1 r2)
  have "\<bar>p1 + p2\<bar> \<le> 8192" using b1 b2 d1 d2 by linarith
  from js_round_small(1,2)[OF this] lp
  have r3: "lowpass (Fin f) (Fin m) = Fin (val (lowpass (Fin f) (Fin m)))"
    and d3: "\<bar>val (lowpass (Fin f) (Fin m)) - (p1 + p2)\<bar> \<le> 1 / 1000000000000"
    by simp_all
  show "lowpass (Fin f) (Fin m) = Fin (val (lowpass (Fin f) (Fin m)))" by (rule r3)
  from d1 d2 d3 e1 e2
  show "\<bar>val (lowpass (Fin f) (Fin m)) - (4/5 * f + 1/5 * m)\<bar> \<le> 1 / 10000000"
    by linarith
qed


lemma abs_contract: "\<bar>m - (4/5 * f + 1/5 * m)\<bar> = 4/5 * \<bar>m - f\<bar>" for m f :: real
proof -
  have eq: "m - (4/5 * f + 1/5 * m) = 4/5 * (m - f)" by (simp add: algebra_simps)
  show ?thesis unfolding eq abs_mult by simp
qed

lemma deviation_near:
  assumes "filteredMagnitudeRef s = Fin f" "magnitude a = Fin m" "\<bar>f\<bar> \<le> 4000" "\<bar>m\<bar> \<le> 4000"
  shows "deviation a s = Fin (val (deviation a s))"
    and "\<bar>val (deviation a s) - \<bar>m - val (lowpass (Fin f) (Fin m))\<bar>\<bar> \<le> 1 / 1000000000000"
    and "\<bar>val (deviation a s) - 4/5 * \<bar>m - f\<bar>\<bar> \<le> 2 / 10000000"
proof -
  define f' where "f' = val (lowpass (Fin f) (Fin m))"
  have l: "lowpass (Fin f) (Fin m) = Fin f'" unfolding f'_def by (rule lowpass_near(1)[OF assms(3,4)])
  have e: "\<bar>f' - (4/5 * f + 1/5 * m)\<bar> \<le> 1 / 10000000"
    unfolding f'_def by (rule lowpass_near(2)[OF assms(3,4)])
  have d: "deviation a s = js_abs (js_round (m - f'))"
    by (simp add: deviation_def assms(1,2) l js_sub_def)
  have "\<bar>m - f'\<bar> \<le> 8192" using e assms(3,4) by linarith
  from js_round_small(1,2)[OF this]
  have r: "js_round (m - f') = Fin (val (js_round (m - f')))"
    and b: "\<bar>val (js_round (m - f')) - (m - f')\<bar> \<le> 1 / 1000000000000"
    by simp_all
  have v: "deviation a s = Fin \<bar>val (js_round (m - f'))\<bar>"
    unfolding d by (subst r) simp
  then show "deviation a s = Fin (val (deviation a s))" by simp
  from v have x: "val (deviation a s) = \<bar>val (js_round (m - f'))\<bar>" by simp
  from b show y: "\<bar>val (deviation a s) - \<bar>m - f'\<bar>\<bar> \<le> 1 / 1000000000000"
    unfolding x by linarith
  have "\<bar>\<bar>m - f'\<bar> - \<bar>m - (4/5 * f + 1/5 * m)\<bar>\<bar> \<le> \<bar>f' - (4/5 * f + 1/5 * m)\<bar>" by linarith
  with y e show "\<bar>val (deviation a s) - 4/5 * \<bar>m - f\<bar>\<bar> \<le> 2 / 10000000"
    unfolding abs_contract by linarith
qed

lemma crossing_if_far:
  assumes "filteredMagnitudeRef s = Fin f" "magnitude a = Fin m" "\<bar>f\<bar> \<le> 4000" "\<bar>m\<bar> \<le> 4000"
    and "6/5 \<le> 4/5 * \<bar>m - f\<bar>"
  shows "js_gt (deviation a s) STEP_THRESHOLD"
proof -
  from deviation_near(3)[OF assms(1-4)] assms(5) STEP_THRESHOLD_val(2)
  have "val STEP_THRESHOLD < val (deviation a s)" by linarith
  then show ?thesis
    by (subst deviation_near(1)[OF assms(1-4)], subst STEP_THRESHOLD_val(1)) simp
qed

lemma quiet_if_close:
  assumes "filteredMagnitudeRef s = Fin f" "magnitude a = Fin m" "\<bar>f\<bar> \<le> 4000" "\<bar>m\<bar> \<le> 4000"
    and "4/5 * \<bar>m - f\<bar> \<le> 1"
  shows "\<not> js_gt (deviation a s) STEP_THRESHOLD"
proof -
  from deviation_near(3)[OF assms(1-4)] assms(5) STEP_THRESHOLD_val(2)
  have "\<not> val STEP_THRESHOLD < val (deviation a s)" by linarith
  then show ?thesis
    by (subst deviation_near(1)[OF assms(1-4)], subst STEP_THRESHOLD_val(1)) simp
qed

lemma filter_after_reading:
  assumes "selectAcceleration ev = Some a" "filteredMagnitudeRef s = Fin f" "magnitude a = Fin m"
    and "\<bar>f\<bar> \<le> 4000" "\<bar>m\<bar> \<le> 4000"
  shows "filteredMagnitudeRef (handleMotion v ev now s) = Fin (val (filteredMagnitudeRef (handleMotion v ev now s)))"
    and "\<bar>val (filteredMagnitudeRef (handleMotion v ev now s)) - (4/5 * f + 1/5 * m)\<bar> \<le> 1 / 10000000"
    and "\<bar>m - val (filteredMagnitudeRef (handleMotion v ev now s))\<bar> \<le> 4/5 * \<bar>m - f\<bar> + 1 / 10000000"
proof -
  have x: "filteredMagnitudeRef (handleMotion v ev now s) = lowpass (Fin f) (Fin m)"
    by (simp add: filtered_handleMotion_reading[OF assms(1)] assms(2,3))
  show "filteredMagnitudeRef (handleMotion v ev now s) = Fin (val (filteredMagnitudeRef (handleMotion v ev now s)))"
    unfolding x by (rule lowpass_near(1)[OF assms(4,5)])
  show y: "\<bar>val (filteredMagnitudeRef (handleMotion v ev now s)) - (4/5 * f + 1/5 * m)\<bar> \<le> 1 / 10000000"
    unfolding x by (rule lowpass_near(2)[OF assms(4,5)])
  have "\<bar>m - val (filteredMagnitudeRef (handleMotion v ev now s))\<bar>
          \<le> \<bar>m - (4/5 * f + 1/5 * m)\<bar> + \<bar>val (filteredMagnitudeRef (handleMotion v ev now s)) - (4/5 * f + 1/5 * m)\<bar>"
    by linarith
  with y show "\<bar>m - val (filteredMagnitudeRef (handleMotion v ev now s))\<bar> \<le> 4/5 * \<bar>m - f\<bar> + 1 / 10000000"
    unfolding abs_contract by linarith
qed

text \<open>A sample that does not cross the threshold leaves the filter within 5/4 of the magnitude.\<close>

lemma quiet_then_close:
  assumes "selectAcceleration ev = Some a" "filteredMagnitudeRef s = Fin f" "magnitude a = Fin m"
    and "\<bar>f\<bar> \<le> 4000" "\<bar>m\<bar> \<le> 4000" "\<not> js_gt (deviation a s) STEP_THRESHOLD"
  shows "\<bar>m - val (filteredMagnitudeRef (handleMotion v ev now s))\<bar> \<le> 5/4"
proof -
  have x: "filteredMagnitudeRef (handleMotion v ev now s) = lowpass (Fin f) (Fin m)"
    by (simp add: filtered_handleMotion_reading[OF assms(1)] assms(2,3))
  from assms(6) have "\<not> val STEP_THRESHOLD < val (deviation a s)"
    by (subst (asm) deviation_near(1)[OF assms(2,3,4,5)], subst (asm) STEP_THRESHOLD_val(1)) simp
  with deviation_near(2)[OF assms(2,3,4,5)] STEP_THRESHOLD_val(2)
  show ?thesis unfolding x by linarith
qed


lemma contract_le:
  fixes d d' b :: real
  assumes "d' \<le> 4/5 * d + 1 / 10000000" "d \<le> b" "5/4 \<le> b"
  shows "d' \<le> b"
  using assms by linarith

lemma close_scaled: "d \<le> 5/4 \<Longrightarrow> 4/5 * d \<le> 1" for d :: real
  by linarith

lemma decay_step:
  fixes P d d' x :: real
  assumes "x \<le> P * d' + (1 - P) / 2000000" "d' \<le> 4/5 * d + 1 / 10000000" "0 \<le> P"
  shows "x \<le> 4/5 * P * d + (1 - 4/5 * P) / 2000000"
proof -
  define A where "A = P * d"
  define B where "B = P * d'"
  have "B \<le> P * (4/5 * d + 1 / 10000000)"
    unfolding B_def by (rule mult_left_mono[OF assms(2,3)])
  also have "\<dots> = 4/5 * A + P / 10000000" unfolding A_def by (simp add: algebra_simps)
  finally have 1: "B \<le> 4/5 * A + P / 10000000" .
  have 2: "4/5 * P * d = 4/5 * A" unfolding A_def by simp
  from assms(1) have 3: "x \<le> B + (1 - P) / 2000000" unfolding B_def .
  from 1 3 show ?thesis unfolding 2 by (simp add: field_simps)
qed

lemma constant_run_decay:
  assumes "constantMagnitude m samples" "\<bar>m\<bar> \<le> 1000" "filteredMagnitudeRef s = Fin f" "\<bar>m - f\<bar> \<le> 2000"
  shows "filteredMagnitudeRef (runSamples v samples s)
           = Fin (val (filteredMagnitudeRef (runSamples v samples s))) \<and>
         \<bar>m - val (filteredMagnitudeRef (runSamples v samples s))\<bar>
           \<le> (4/5) ^ length samples * \<bar>m - f\<bar> + (1 - (4/5) ^ length samples) / 2000000"
  using assms
proof (induction samples arbitrary: s f)
  case Nil
  then show ?case by (simp add: runSamples_Nil)
next
  case (Cons sample samples)
  obtain ev now where sample: "sample = (ev, now)" by (cases sample)
  from Cons.prems(1) sample obtain a where a: "selectAcceleration ev = Some a" "magnitude a = Fin m"
    and rest: "constantMagnitude m samples"
    by (auto simp: constantMagnitude_def split: option.splits)
  define f' where "f' = val (filteredMagnitudeRef (handleMotion v ev now s))"
  define P where "P = (4/5 :: real) ^ length samples"
  have P: "0 \<le> P" unfolding P_def by simp
  have rf: "\<bar>f\<bar> \<le> 4000" using Cons.prems(2,4) by linarith
  have rm: "\<bar>m\<bar> \<le> 4000" using Cons.prems(2) by linarith
  have fin: "filteredMagnitudeRef (handleMotion v ev now s) = Fin f'"
    unfolding f'_def by (rule filter_after_reading(1)[OF a(1) Cons.prems(3) a(2) rf rm])
  have d': "\<bar>m - f'\<bar> \<le> 4/5 * \<bar>m - f\<bar> + 1 / 10000000"
    unfolding f'_def by (rule filter_after_reading(3)[OF a(1) Cons.prems(3) a(2) rf rm])
  then have "\<bar>m - f'\<bar> \<le> 2000" using Cons.prems(4) by (rule contract_le) simp
  from Cons.IH[OF rest Cons.prems(2) fin this, folded P_def]
  have ih1: "filteredMagnitudeRef (runSamples v samples (handleMotion v ev now s))
           = Fin (val (filteredMagnitudeRef (runSamples v samples (handleMotion v ev now s))))"
    and ih2: "\<bar>m - val (filteredMagnitudeRef (runSamples v samples (handleMotion v ev now s)))\<bar>
           \<le> P * \<bar>m - f'\<bar> + (1 - P) / 2000000"
    by simp_all
  from decay_step[OF ih2 d' P]
  have "\<bar>m - val (filteredMagnitudeRef (runSamples v samples (handleMotion v ev now s)))\<bar>
      \<le> 4/5 * P * \<bar>m - f\<bar> + (1 - 4/5 * P) / 2000000" .
  with ih1 show ?case by (simp add: sample runSamples_Cons P_def)
qed

lemma constant_run_near:
  assumes "constantMagnitude m samples" "\<bar>m\<bar> \<le> 1000" "filteredMagnitudeRef s = Fin f" "\<bar>m - f\<bar> \<le> 2000"
  shows "\<bar>m - val (filteredMagnitudeRef (runSamples v samples s))\<bar>
           \<le> (4/5) ^ length samples * \<bar>m - f\<bar> + 1 / 1000000"
proof -
  define P where "P = (4/5 :: real) ^ length samples"
  have "0 \<le> P" unfolding P_def by simp
  then have "(1 - P) / 2000000 \<le> 1 / 1000000" by simp
  with constant_run_decay[OF assms, of v, folded P_def] show ?thesis
    unfolding P_def[symmetric] by linarith
qed

lemma constant_run_quiet:
  assumes "constantMagnitude m samples" "\<bar>m\<bar> \<le> 1000" "filteredMagnitudeRef s = Fin f" "\<bar>m - f\<bar> \<le> 5/4"
  shows "stepTimes v samples s = []"
  using assms
proof (induction samples arbitrary: s f)
  case Nil
  then show ?case by simp
next
  case (Cons sample samples)
  obtain ev now where sample: "sample = (ev, now)" by (cases sample)
  from Cons.prems(1) sample obtain a where a: "selectAcceleration ev = Some a" "magnitude a = Fin m"
    and rest: "constantMagnitude m samples"
    by (auto simp: constantMagnitude_def split: option.splits)
  define f' where "f' = val (filteredMagnitudeRef (handleMotion v ev now s))"
  have rf: "\<bar>f\<bar> \<le> 4000" using Cons.prems(2,4) by linarith
  have rm: "\<bar>m\<bar> \<le> 4000" using Cons.prems(2) by linarith
  have "4/5 * \<bar>m - f\<bar> \<le> 1" using Cons.prems(4) by (rule close_scaled)
  from quiet_if_close[OF Cons.prems(3) a(2) rf rm this]
  have quiet: "\<not> stepDetected v ev now s" by (simp add: stepDetected_iff[OF a(1)])
  have fin: "filteredMagnitudeRef (handleMotion v ev now s) = Fin f'"
    unfolding f'_def by (rule filter_after_reading(1)[OF a(1) Cons.prems(3) a(2) rf rm])
  have "\<bar>m - f'\<bar> \<le> 4/5 * \<bar>m - f\<bar> + 1 / 10000000"
    unfolding f'_def by (rule filter_after_reading(3)[OF a(1) Cons.prems(3) a(2) rf rm])
  then have "\<bar>m - f'\<bar> \<le> 5/4" using Cons.prems(4) by (rule contract_le) simp
  from Cons.IH[OF rest Cons.prems(2) fin this] quiet show ?case by (simp add: sample)
qed


subsection \<open>Overflow\<close>

lemma finite_num_iff: "finite_num j \<longleftrightarrow> j = Fin (val j)"
  by (cases j) simp_all

lemma js_round_nonneg: "0 \<le> x \<Longrightarrow> nonneg_num (js_round x)"
proof -
  assume x: "0 \<le> x"
  with rounded_sign[of x] have "0 \<le> of_int (rne (x / ulp x)) * ulp x" by simp
  with x show ?thesis by (auto simp: js_round_def nonneg_num_def Let_def)
qed

lemma nonneg_square: "nonneg_num (js_mul (Fin y) (Fin y))"
  by (simp add: js_round_nonneg)

lemma nonneg_add: "nonneg_num a \<Longrightarrow> nonneg_num b \<Longrightarrow> nonneg_num (js_add a b)"
  by (cases a; cases b) (simp_all add: nonneg_num_def js_round_nonneg[unfolded nonneg_num_def])

lemma nonneg_sqrt: "nonneg_num a \<Longrightarrow> nonneg_num (js_sqrt a)"
  by (cases a) (auto simp: nonneg_num_def js_round_nonneg[unfolded nonneg_num_def])

lemma PInf_add: "nonneg_num b \<Longrightarrow> js_add PInf b = PInf \<and> js_add b PInf = PInf"
  by (cases b) (simp_all add: nonneg_num_def)

lemma square_overflow:
  assumes "2 ^ 512 \<le> \<bar>x\<bar>"
  shows "js_mul (Fin x) (Fin x) = PInf"
proof -
  have "(2::real) ^ 512 * 2 ^ 512 \<le> \<bar>x\<bar> * \<bar>x\<bar>" using assms by (intro mult_mono) simp_all
  then have "(2::real) ^ 1024 \<le> x * x" by (simp add: power_add[symmetric] abs_mult[symmetric])
  then show ?thesis by (simp add: js_round_overflow)
qed

lemma magnitude_nonneg: "finiteAxes a \<Longrightarrow> nonneg_num (magnitude a)"
  unfolding finiteAxes_def finite_num_iff magnitude_def Let_def
  by (elim conjE, erule ssubst, erule ssubst, erule ssubst)
     (intro nonneg_sqrt nonneg_add nonneg_square)

lemma magnitude_overflow:
  assumes "finiteAxes a" "axisBeyond (2 ^ 512) a"
  shows "magnitude a = PInf"
proof -
  obtain x y z where ax: "nullish (acc_x a) (Fin 0) = Fin x" "nullish (acc_y a) (Fin 0) = Fin y"
    "nullish (acc_z a) (Fin 0) = Fin z"
    using assms(1) unfolding finiteAxes_def finite_num_iff by blast
  from assms(2) have big: "2 ^ 512 \<le> \<bar>x\<bar> \<or> 2 ^ 512 \<le> \<bar>y\<bar> \<or> 2 ^ 512 \<le> \<bar>z\<bar>"
    by (simp add: axisBeyond_def ax)
  have m: "magnitude a = js_sqrt (js_add (js_add (js_mul (Fin x) (Fin x)) (js_mul (Fin y) (Fin y)))
                                    (js_mul (Fin z) (Fin z)))"
    by (simp add: magnitude_def Let_def ax del: js_mul.simps js_add.simps)
  note nx = nonneg_square[of x] and ny = nonneg_square[of y] and nz = nonneg_square[of z]
  from big have "js_add (js_add (js_mul (Fin x) (Fin x)) (js_mul (Fin y) (Fin y)))
                        (js_mul (Fin z) (Fin z)) = PInf"
  proof (elim disjE)
    assume "2 ^ 512 \<le> \<bar>x\<bar>"
    then have "js_mul (Fin x) (Fin x) = PInf" by (rule square_overflow)
    then show ?thesis using PInf_add[OF ny] PInf_add[OF nz] by (simp del: js_mul.simps)
  next
    assume "2 ^ 512 \<le> \<bar>y\<bar>"
    then have "js_mul (Fin y) (Fin y) = PInf" by (rule square_overflow)
    then show ?thesis using PInf_add[OF nx] PInf_add[OF nz] by (simp del: js_mul.simps)
  next
    assume "2 ^ 512 \<le> \<bar>z\<bar>"
    then have "js_mul (Fin z) (Fin z) = PInf" by (rule square_overflow)
    then show ?thesis using PInf_add[OF nonneg_add[OF nx ny]] by (simp del: js_mul.simps js_add.simps)
  qed
  with m show ?thesis by simp
qed

lemma SMOOTHING_pos: "0 < val SMOOTHING" "0 < val (js_sub (Fin 1) SMOOTHING)"
  using SMOOTHING_val(2) complement_val(2) by linarith+

lemma nonneg_scaled:
  assumes "c = Fin cv" "0 < cv" "nonneg_num m"
  shows "nonneg_num (js_mul c m)"
proof (cases m)
  case (Fin mv)
  with assms have "0 \<le> cv * mv" by (simp add: nonneg_num_def)
  then show ?thesis unfolding Fin assms(1) by (simp add: js_round_nonneg)
next
  case PInf
  with assms show ?thesis by (simp add: nonneg_num_def)
qed (use assms in \<open>simp_all add: nonneg_num_def\<close>)

lemma lowpass_PInf_reading:
  assumes "nonneg_num f"
  shows "lowpass f PInf = PInf"
proof -
  have p1: "nonneg_num (js_mul SMOOTHING f)"
    by (rule nonneg_scaled[OF SMOOTHING_val(1) SMOOTHING_pos(1) assms])
  have p2: "js_mul (js_sub (Fin 1) SMOOTHING) PInf = PInf"
    using SMOOTHING_pos(2) by (subst complement_val(1)) simp
  from PInf_add[OF p1] show ?thesis by (simp add: lowpass_def p2)
qed

lemma lowpass_PInf_filter:
  assumes "nonneg_num m"
  shows "lowpass PInf m = PInf"
proof -
  have a: "js_mul SMOOTHING PInf = PInf"
    using SMOOTHING_pos(1) by (subst SMOOTHING_val(1)) simp
  have "nonneg_num (js_mul (js_sub (Fin 1) SMOOTHING) m)"
    by (rule nonneg_scaled[OF complement_val(1) SMOOTHING_pos(2) assms])
  from PInf_add[OF this] a show ?thesis by (simp add: lowpass_def)
qed

lemma sqrt_diff_le:
  assumes "0 \<le> a" "0 \<le> b"
  shows "\<bar>sqrt a - sqrt b\<bar> \<le> sqrt \<bar>a - b\<bar>"
proof -
  have *: "sqrt u - sqrt w \<le> sqrt \<bar>u - w\<bar>" if "0 \<le> u" "0 \<le> w" for u w :: real
  proof (cases "w \<le> u")
    case True
    have "sqrt u = sqrt (w + (u - w))" by simp
    also have "\<dots> \<le> sqrt w + sqrt (u - w)"
      using that True by (intro sqrt_add_le_add_sqrt) simp_all
    finally show ?thesis using True by simp
  next
    case False
    then have "sqrt u \<le> sqrt w" by simp
    moreover have "0 \<le> sqrt \<bar>u - w\<bar>" by simp
    ultimately show ?thesis by linarith
  qed
  from *[OF assms] *[OF assms(2,1)] show ?thesis by (simp add: abs_minus_commute abs_le_iff)
qed

lemma square_bound: "\<bar>x\<bar> \<le> 1000 \<Longrightarrow> \<bar>x * x\<bar> \<le> 1000000" for x :: real
proof -
  assume "\<bar>x\<bar> \<le> 1000"
  then have "\<bar>x\<bar> * \<bar>x\<bar> \<le> 1000 * 1000" by (intro mult_mono) simp_all
  then show ?thesis by (simp add: abs_mult)
qed

lemma js_round_mid:
  assumes "\<bar>x\<bar> \<le> 4194304"
  shows "js_round x = Fin (val (js_round x))"
    and "\<bar>val (js_round x) - x\<bar> \<le> 1 / 2000000000"
    and "0 \<le> x \<Longrightarrow> 0 \<le> val (js_round x)"
proof -
  note r = js_round_2p22[OF assms]
  show "js_round x = Fin (val (js_round x))" using r by blast
  have "(1::real) / 2 ^ 31 \<le> 1 / 2000000000" by simp
  moreover have "\<bar>val (js_round x) - x\<bar> \<le> 1 / 2 ^ 31" using r by blast
  ultimately show "\<bar>val (js_round x) - x\<bar> \<le> 1 / 2000000000" by (rule order_trans[rotated])
  show "0 \<le> x \<Longrightarrow> 0 \<le> val (js_round x)" using r by blast
qed

lemma magnitude_zero:
  assumes "nullish (acc_x a) (Fin 0) = Fin 0" "nullish (acc_y a) (Fin 0) = Fin 0"
    "nullish (acc_z a) (Fin 0) = Fin 0"
  shows "magnitude a = Fin 0"
  by (simp add: magnitude_def assms js_round_zero)

lemma magnitude_near:
  assumes "nullish (acc_x a) (Fin 0) = Fin x" "nullish (acc_y a) (Fin 0) = Fin y"
    "nullish (acc_z a) (Fin 0) = Fin z" "\<bar>x\<bar> \<le> 1000" "\<bar>y\<bar> \<le> 1000" "\<bar>z\<bar> \<le> 1000"
  shows "magnitude a = Fin (val (magnitude a))"
    and "0 \<le> val (magnitude a)"
    and "\<bar>val (magnitude a) - sqrt (x * x + y * y + z * z)\<bar> \<le> 1 / 10000"
proof -
  define xx where "xx = val (js_round (x * x))"
  define yy where "yy = val (js_round (y * y))"
  define zz where "zz = val (js_round (z * z))"
  define s1 where "s1 = val (js_round (xx + yy))"
  define s2 where "s2 = val (js_round (s1 + zz))"
  define r where "r = val (js_round (sqrt s2))"
  note bx = square_bound[OF assms(4)] and by' = square_bound[OF assms(5)] and bz = square_bound[OF assms(6)]
  have px: "\<bar>x * x\<bar> \<le> 4194304" "\<bar>y * y\<bar> \<le> 4194304" "\<bar>z * z\<bar> \<le> 4194304"
    using bx by' bz by linarith+
  have rx: "js_round (x * x) = Fin xx" and ex: "\<bar>xx - x * x\<bar> \<le> 1 / 2000000000" and nx: "0 \<le> xx"
    using js_round_mid[OF px(1)] by (simp_all add: xx_def)
  have ry: "js_round (y * y) = Fin yy" and ey: "\<bar>yy - y * y\<bar> \<le> 1 / 2000000000" and ny: "0 \<le> yy"
    using js_round_mid[OF px(2)] by (simp_all add: yy_def)
  have rz: "js_round (z * z) = Fin zz" and ez: "\<bar>zz - z * z\<bar> \<le> 1 / 2000000000" and nz: "0 \<le> zz"
    using js_round_mid[OF px(3)] by (simp_all add: zz_def)
  have "\<bar>xx + yy\<bar> \<le> 4194304" using bx by' ex ey by linarith
  from js_round_mid[OF this] nx ny
  have r1: "js_round (xx + yy) = Fin s1" and e1: "\<bar>s1 - (xx + yy)\<bar> \<le> 1 / 2000000000" and n1: "0 \<le> s1"
    by (simp_all add: s1_def)
  have "\<bar>s1 + zz\<bar> \<le> 4194304" using bx by' bz ex ey ez e1 by linarith
  from js_round_mid[OF this] n1 nz
  have r2: "js_round (s1 + zz) = Fin s2" and e2: "\<bar>s2 - (s1 + zz)\<bar> \<le> 1 / 2000000000" and n2: "0 \<le> s2"
    by (simp_all add: s2_def)
  have b2: "s2 \<le> 4194304" using bx by' bz ex ey ez e1 e2 by linarith
  have "sqrt s2 \<le> 8192" using n2 b2 by (intro real_le_lsqrt) simp_all
  then have "\<bar>sqrt s2\<bar> \<le> 8192" using n2 by simp
  from js_round_small[OF this] n2
  have r3: "js_round (sqrt s2) = Fin r" and e3: "\<bar>r - sqrt s2\<bar> \<le> 1 / 1000000000000" and n3: "0 \<le> r"
    by (simp_all add: r_def)
  have m: "magnitude a = Fin r"
    using n2 by (simp add: magnitude_def assms(1-3) rx ry rz r1 r2 r3)
  show "magnitude a = Fin (val (magnitude a))" by (simp add: m)
  show "0 \<le> val (magnitude a)" using n3 by (simp add: m)
  define S where "S = x * x + y * y + z * z"
  have S: "0 \<le> S" unfolding S_def by simp
  have d: "\<bar>s2 - S\<bar> \<le> 5 / 2000000000"
    unfolding S_def using ex ey ez e1 e2 by linarith
  have "sqrt \<bar>s2 - S\<bar> \<le> 1 / 20000"
    using d by (intro real_le_lsqrt) (simp_all add: power2_eq_square)
  with sqrt_diff_le[OF n2 S] have "\<bar>sqrt s2 - sqrt S\<bar> \<le> 1 / 20000" by linarith
  with e3 have "\<bar>r - sqrt S\<bar> \<le> 1 / 10000" by linarith
  then show "\<bar>val (magnitude a) - sqrt (x * x + y * y + z * z)\<bar> \<le> 1 / 10000"
    by (simp only: m S_def val.simps)
qed

lemma handleMotion_overflow:
  assumes "selectAcceleration ev = Some a" "finiteAxes a" "axisBeyond (2 ^ 512) a"
    and "nonneg_num (filteredMagnitudeRef s)"
  shows "handleMotion v ev now s = s\<lparr>filteredMagnitudeRef := PInf\<rparr>"
proof -
  have m: "magnitude a = PInf" by (rule magnitude_overflow[OF assms(2,3)])
  have l: "lowpass (filteredMagnitudeRef s) PInf = PInf"
    by (rule lowpass_PInf_reading[OF assms(4)])
  have "deviation a s = NaN" by (simp add: deviation_def l m js_sub_def)
  then show ?thesis by (simp add: handleMotion_reading[OF assms(1)] l m)
qed

lemma handleMotion_stuck:
  assumes "selectAcceleration ev = Some a" "finiteAxes a" "filteredMagnitudeRef s = PInf"
  shows "filteredMagnitudeRef (handleMotion v ev now s) = PInf"
    and "stepDetected v ev now s \<longleftrightarrow> finite_num (magnitude a) \<and> now - lastStepAtRef s > 400"
proof -
  note n = magnitude_nonneg[OF assms(2)]
  have l: "lowpass (filteredMagnitudeRef s) (magnitude a) = PInf"
    unfolding assms(3) by (rule lowpass_PInf_filter[OF n])
  show "filteredMagnitudeRef (handleMotion v ev now s) = PInf"
    by (simp add: filtered_handleMotion_reading[OF assms(1)] l)
  have "js_gt (deviation a s) STEP_THRESHOLD \<longleftrightarrow> finite_num (magnitude a)"
  proof (cases "magnitude a")
    case (Fin mv)
    with l have "lowpass (filteredMagnitudeRef s) (Fin mv) = PInf" by simp
    with Fin show ?thesis
      by (subst STEP_THRESHOLD_val(1)) (simp add: deviation_def js_sub_def)
  next
    case PInf
    with l have "lowpass (filteredMagnitudeRef s) PInf = PInf" by simp
    with PInf show ?thesis by (simp add: deviation_def js_sub_def)
  qed (use n in \<open>simp_all add: nonneg_num_def\<close>)
  then show "stepDetected v ev now s \<longleftrightarrow> finite_num (magnitude a) \<and> now - lastStepAtRef s > 400"
    by (simp add: stepDetected_iff[OF assms(1)] MIN_STEP_INTERVAL_MS_def)
qed

lemma handleMotion_checked_ok: "handleMotion_checked v ev now s = Inr (handleMotion v ev now s)"
  by (cases "selectAcceleration ev") (simp_all add: handleMotion_checked_def handleMotion_def member_def)


subsection \<open>Exact evaluation\<close>

lemma rne_tie: "\<bar>q - of_int n\<bar> = 1/2 \<Longrightarrow> even n \<Longrightarrow> rne q = n"
proof -
  assume h: "\<bar>q - of_int n\<bar> = 1/2" and e: "even n"
  then consider "q = of_int n + 1/2" | "q = of_int (n - 1) + 1/2" by (auto simp: abs_if split: if_splits)
  then show ?thesis
  proof cases
    case 1
    then have "\<lfloor>q\<rfloor> = n" by (intro floor_unique) simp_all
    with 1 e show ?thesis by (simp add: rne_def)
  next
    case 2
    then have "\<lfloor>q\<rfloor> = n - 1" by (intro floor_unique) simp_all
    with 2 e show ?thesis by (simp add: rne_def)
  qed
qed

lemma js_round_exact_tie:
  assumes "2 powr of_int e \<le> \<bar>x\<bar>" "\<bar>x\<bar> < 2 powr of_int (e + 1)" "- 1022 \<le> e"
    and "u = 2 powr of_int (e - 52)" "\<bar>x / u - of_int n\<bar> = 1/2" "even n" "\<bar>of_int n * u\<bar> < 2 ^ 1024"
  shows "js_round x = Fin (of_int n * u)"
proof -
  have "0 < (2::real) powr of_int e" by simp
  with assms(1) have "0 < \<bar>x\<bar>" by linarith
  then have x: "x \<noteq> 0" by simp
  have "0 < \<bar>x\<bar>" using x by simp
  with assms(1,2) have "of_int e \<le> log 2 \<bar>x\<bar>" "log 2 \<bar>x\<bar> < of_int (e + 1)"
    by (simp_all add: le_log_iff log_less_iff)
  then have "\<lfloor>log 2 \<bar>x\<bar>\<rfloor> = e" by (intro floor_unique) simp_all
  with assms(3) have "exponent x = e" by (simp add: exponent_def)
  then have u: "ulp x = u" by (simp add: ulp_def assms(4))
  from assms(5,6) have "rne (x / u) = n" by (rule rne_tie)
  with u assms(7) x show ?thesis by (simp add: js_round_def Let_def)
qed

lemma js_round_sqrt_exact:
  assumes "(2 powr of_int e)\<^sup>2 \<le> q" "q < (2 powr of_int (e + 1))\<^sup>2" "- 1022 \<le> e"
    and "u = 2 powr of_int (e - 52)" "1 \<le> n"
    and "((of_int n - 1/2) * u)\<^sup>2 < q" "q < ((of_int n + 1/2) * u)\<^sup>2"
    and "\<bar>of_int n * u\<bar> < 2 ^ 1024"
  shows "js_round (sqrt q) = Fin (of_int n * u)"
proof -
  have u: "0 < u" by (simp add: assms(4))
  have "0 \<le> ((2::real) powr of_int e)\<^sup>2" by simp
  with assms(1) have q: "0 \<le> q" by linarith
  have "2 powr of_int e \<le> sqrt q" by (rule real_le_rsqrt[OF assms(1)])
  then have 1: "2 powr of_int e \<le> \<bar>sqrt q\<bar>" by simp
  have "sqrt q < 2 powr of_int (e + 1)"
    using q assms(2) by (intro real_less_lsqrt) simp_all
  then have 2: "\<bar>sqrt q\<bar> < 2 powr of_int (e + 1)" using q by simp
  have 3: "(of_int n - 1/2) * u < sqrt q"
    using assms(6) by (rule real_less_rsqrt)
  have "0 \<le> (of_int n + 1/2) * u" using u assms(5) by simp
  then have 4: "sqrt q < (of_int n + 1/2) * u"
    using assms(7) q by (intro real_less_lsqrt) simp_all
  from 3 have lo: "of_int n * u - u / 2 < sqrt q" by (simp add: algebra_simps)
  from 4 have hi: "sqrt q < of_int n * u + u / 2" by (simp add: algebra_simps)
  from lo hi have d: "\<bar>sqrt q - of_int n * u\<bar> < u / 2" by linarith
  have "sqrt q / u - of_int n = (sqrt q - of_int n * u) / u" using u by (simp add: field_simps)
  then have "\<bar>sqrt q / u - of_int n\<bar> = \<bar>sqrt q - of_int n * u\<bar> / u" using u by simp
  also have "\<dots> < 1/2" using d u by (simp add: pos_divide_less_eq)
  finally have "\<bar>sqrt q / u - of_int n\<bar> < 1/2" .
  from js_round_exact[OF 1 2 assms(3,4) this assms(8)] show ?thesis .
qed

lemma SMOOTHING_exact: "SMOOTHING = Fin (3602879701896397 / 4503599627370496)"
proof -
  have "js_round (4/5) = Fin (of_int 7205759403792794 * (1 / 2 ^ 53))"
    by (rule js_round_exact[where e = "- 1"]) (simp_all add: powr_minus_divide powr_realpow)
  then show ?thesis by (simp add: SMOOTHING_def)
qed

lemma complement_exact: "js_sub (Fin 1) SMOOTHING = Fin (900719925474099 / 4503599627370496)"
proof -
  have "js_round (900719925474099 / 4503599627370496) = Fin (of_int 7205759403792792 * (1 / 2 ^ 55))"
    by (rule js_round_exact[where e = "- 3"]) (simp_all add: powr_minus_divide powr_realpow)
  then show ?thesis by (simp add: SMOOTHING_exact js_sub_def)
qed

lemma magnitude_bigReading: "magnitude bigReading = Fin 35601047028549260"
proof -
  have sq: "js_round (35601047028549260 * 35601047028549260)
              = Fin (of_int 8794593869328016 * 2 ^ 57)"
    by (rule js_round_exact[where e = 109]) (simp_all add: powr_realpow)
  have again: "js_round (of_int 8794593869328016 * 2 ^ 57) = Fin (of_int 8794593869328016 * 2 ^ 57)"
    by (rule js_round_exact[where e = 109]) (simp_all add: powr_realpow)
  have root: "js_round (sqrt (of_int 8794593869328016 * 2 ^ 57)) = Fin (of_int 8900261757137315 * 2 ^ 2)"
    by (rule js_round_sqrt_exact[where e = 54]) (simp_all add: powr_realpow power2_eq_square)
  show ?thesis
    using sq again root
    by (simp add: magnitude_def bigReading_def js_round_zero)
qed

lemma lowpass_big: "lowpass (Fin 35601047028549260) (Fin 35601047028549260) = Fin 35601047028549256"
proof -
  have p1: "js_round (3602879701896397 / 4503599627370496 * 35601047028549260)
              = Fin (of_int 7120209405709852 * 2 ^ 2)"
    by (rule js_round_exact[where e = 54]) (simp_all add: powr_realpow)
  have p2: "js_round (900719925474099 / 4503599627370496 * 35601047028549260)
              = Fin (of_int 7120209405709850 * 2 ^ 0)"
    by (rule js_round_exact[where e = 52]) (simp_all add: powr_realpow)
  have s: "js_round (28480837622839408 + 7120209405709850) = Fin (of_int 8900261757137314 * 2 ^ 2)"
    by (rule js_round_exact_tie[where e = 54]) (simp_all add: powr_realpow)
  show ?thesis
    apply (simp only: lowpass_def complement_exact)
    apply (simp only: SMOOTHING_exact)
    using p1 p2 s by simp
qed

lemma lowpass_big_fixed: "lowpass (Fin 35601047028549256) (Fin 35601047028549260) = Fin 35601047028549256"
proof -
  have p1: "js_round (3602879701896397 / 4503599627370496 * 35601047028549256)
              = Fin (of_int 7120209405709852 * 2 ^ 2)"
    by (rule js_round_exact[where e = 54]) (simp_all add: powr_realpow)
  have p2: "js_round (900719925474099 / 4503599627370496 * 35601047028549260)
              = Fin (of_int 7120209405709850 * 2 ^ 0)"
    by (rule js_round_exact[where e = 52]) (simp_all add: powr_realpow)
  have s: "js_round (28480837622839408 + 7120209405709850) = Fin (of_int 8900261757137314 * 2 ^ 2)"
    by (rule js_round_exact_tie[where e = 54]) (simp_all add: powr_realpow)
  show ?thesis
    apply (simp only: lowpass_def complement_exact)
    apply (simp only: SMOOTHING_exact)
    using p1 p2 s by simp
qed

lemma js_round_four: "js_round 4 = Fin 4"
proof -
  have "js_round 4 = Fin (of_int 4503599627370496 * (1 / 2 ^ 50))"
    by (rule js_round_exact[where e = 2]) (simp_all add: powr_minus_divide powr_realpow)
  then show ?thesis by simp
qed


lemma STEP_THRESHOLD_exact: "STEP_THRESHOLD = Fin (2476979795053773 / 2251799813685248)"
proof -
  have "js_round (11 / 10) = Fin (of_int 4953959590107546 * (1 / 2 ^ 52))"
    by (rule js_round_exact[where e = 0]) (simp_all add: powr_minus_divide powr_realpow)
  then show ?thesis by (simp add: STEP_THRESHOLD_def)
qed

lemma GRAVITY_exact: "GRAVITY = Fin (5522539043063071 / 562949953421312)"
proof -
  have "js_round (981 / 100) = Fin (of_int 5522539043063071 * (1 / 2 ^ 49))"
    by (rule js_round_exact[where e = 3]) (simp_all add: powr_minus_divide powr_realpow)
  then show ?thesis by (simp add: GRAVITY_def)
qed

lemma magnitude_surgeReading: "magnitude surgeReading = Fin 178005235142746272"
proof -
  have sq: "js_round (178005235142746272 * 178005235142746272)
              = Fin (of_int 6870776460412511 * 2 ^ 62)"
    by (rule js_round_exact[where e = 114]) (simp_all add: powr_realpow)
  have again: "js_round (of_int 6870776460412511 * 2 ^ 62) = Fin (of_int 6870776460412511 * 2 ^ 62)"
    by (rule js_round_exact[where e = 114]) (simp_all add: powr_realpow)
  have root: "js_round (sqrt (of_int 6870776460412511 * 2 ^ 62)) = Fin (of_int 5562663598210821 * 2 ^ 5)"
    by (rule js_round_sqrt_exact[where e = 57]) (simp_all add: powr_realpow power2_eq_square)
  show ?thesis
    using sq again root
    by (simp add: magnitude_def surgeReading_def js_round_zero)
qed

lemma lowpass_surge: "lowpass GRAVITY (Fin 178005235142746272) = Fin 35601047028549256"
proof -
  have p1: "js_round (3602879701896397 / 4503599627370496 * (5522539043063071 / 562949953421312))
              = Fin (of_int 8836062468900914 * (1 / 2 ^ 50))"
    by (rule js_round_exact[where e = 2]) (simp_all add: powr_minus_divide powr_realpow)
  have p2: "js_round (900719925474099 / 4503599627370496 * 178005235142746272)
              = Fin (of_int 8900261757137312 * 2 ^ 2)"
    by (rule js_round_exact[where e = 54]) (simp_all add: powr_realpow)
  have s: "js_round (of_int 8836062468900914 * (1 / 2 ^ 50) + of_int 8900261757137312 * 2 ^ 2)
              = Fin (of_int 8900261757137314 * 2 ^ 2)"
    by (rule js_round_exact[where e = 54]) (simp_all add: powr_realpow)
  show ?thesis
    apply (simp only: lowpass_def complement_exact)
    apply (simp only: SMOOTHING_exact GRAVITY_exact)
    using p1 p2 s by simp
qed

lemma deviation_surge:
  assumes "filteredMagnitudeRef s = GRAVITY"
  shows "deviation surgeReading s = Fin 142404188114197024"
proof -
  have "js_round (178005235142746272 - 35601047028549256) = Fin (of_int 8900261757137314 * 2 ^ 4)"
    by (rule js_round_exact_tie[where e = 56]) (simp_all add: powr_realpow)
  then show ?thesis
    by (simp add: deviation_def assms magnitude_surgeReading lowpass_surge js_sub_def)
qed

lemma deviation_big:
  assumes "filteredMagnitudeRef s = Fin 35601047028549256"
  shows "deviation bigReading s = Fin 4"
  using js_round_four
  by (simp add: deviation_def assms magnitude_bigReading lowpass_big_fixed js_sub_def)

lemma crossing_four: "js_gt (Fin 4) STEP_THRESHOLD" "js_gt (Fin 142404188114197024) STEP_THRESHOLD"
  by (simp_all add: STEP_THRESHOLD_exact)

subsection \<open>Sample readings\<close>

lemma filtered_initialApp: "filteredMagnitudeRef (initialApp v) = GRAVITY"
  by (simp add: initialApp_def)

lemma GRAVITY_range: "GRAVITY = Fin (val GRAVITY)" "9 \<le> val GRAVITY" "val GRAVITY \<le> 10"
  by (simp_all add: GRAVITY_exact)

lemma nonneg_GRAVITY: "nonneg_num GRAVITY"
  by (simp add: nonneg_num_def GRAVITY_exact)

lemma magnitude_restReading: "magnitude restReading = Fin 0"
  by (rule magnitude_zero) (simp_all add: restReading_def)

lemma magnitude_allNullReading: "magnitude allNullReading = Fin 0"
  by (rule magnitude_zero) (simp_all add: allNullReading_def)

lemma select_allNullEvent: "selectAcceleration allNullEvent = Some allNullReading"
  by (simp add: allNullEvent_def selectAcceleration_def)

lemma select_hugeEvent: "selectAcceleration hugeEvent = Some hugeReading"
  by (simp add: hugeEvent_def selectAcceleration_def)

lemma select_bigEvent: "selectAcceleration bigEvent = Some bigReading"
  by (simp add: bigEvent_def selectAcceleration_def)

lemma select_surgeEvent: "selectAcceleration surgeEvent = Some surgeReading"
  by (simp add: surgeEvent_def selectAcceleration_def)

lemma select_emptyEvent: "selectAcceleration emptyEvent = None"
  by (simp add: emptyEvent_def selectAcceleration_def)

lemma magnitude_gravityReading:
  "magnitude gravityReading = Fin (val (magnitude gravityReading))"
  "\<bar>val (magnitude gravityReading) - val GRAVITY\<bar> \<le> 1 / 10000"
proof -
  have g: "\<bar>val GRAVITY\<bar> \<le> 1000" using GRAVITY_range(2,3) by simp
  have n: "nullish (acc_x gravityReading) (Fin 0) = Fin 0"
    "nullish (acc_y gravityReading) (Fin 0) = Fin 0"
    "nullish (acc_z gravityReading) (Fin 0) = Fin (val GRAVITY)"
    using GRAVITY_range(1) by (simp_all add: gravityReading_def)
  show "magnitude gravityReading = Fin (val (magnitude gravityReading))"
    by (rule magnitude_near(1)[OF n]) (use g in simp_all)
  have "\<bar>val (magnitude gravityReading) - sqrt (0 * 0 + 0 * 0 + val GRAVITY * val GRAVITY)\<bar> \<le> 1 / 10000"
    by (rule magnitude_near(3)[OF n]) (use g in simp_all)
  moreover have "sqrt (0 * 0 + 0 * 0 + val GRAVITY * val GRAVITY) = val GRAVITY"
    using GRAVITY_range(2) by simp
  ultimately show "\<bar>val (magnitude gravityReading) - val GRAVITY\<bar> \<le> 1 / 10000" by simp
qed

lemma crossing_zero_from_gravity:
  assumes "filteredMagnitudeRef s = GRAVITY" "magnitude a = Fin 0"
  shows "js_gt (deviation a s) STEP_THRESHOLD"
proof -
  have f: "filteredMagnitudeRef s = Fin (val GRAVITY)" using assms(1) GRAVITY_range(1) by simp
  have "6/5 \<le> 4/5 * \<bar>0 - val GRAVITY\<bar>" using GRAVITY_range(2) by simp
  then show ?thesis
    using GRAVITY_range(2,3) by (intro crossing_if_far[OF f assms(2)]) simp_all
qed

subsection \<open>Detection rule\<close>

text \<open>
  Claim C1. For a sample that carries a reading, a step is detected if and only if the
  deviation \<open>delta\<close> (the distance of the magnitude from the updated filter value) is
  strictly above the threshold and \<open>now - lastStepAt\<close> is strictly above 400; a detected
  step adds the increment and records \<open>now\<close>. A deviation exactly equal to the threshold
  or an elapsed time of exactly 400 is no step. Hence a sample handled at most 400 ms
  after a detected step is never a step, and in any stream of samples two samples that
  both count lie more than 400 ms apart. The threshold is the double that the literal
  \<^verbatim>\<open>1.1\<close> denotes.
\<close>

theorem C1_step_iff_threshold_and_refractory:
  "(selectAcceleration ev = Some a \<longrightarrow>
      (stepDetected v ev now s \<longleftrightarrow>
         js_gt (deviation a s) STEP_THRESHOLD \<and> now - lastStepAtRef s > 400) \<and>
      (stepDetected v ev now s \<longrightarrow>
         steps (handleMotion v ev now s) = steps s + stepIncrement v \<and>
         lastStepAtRef (handleMotion v ev now s) = now) \<and>
      (deviation a s = STEP_THRESHOLD \<or> now - lastStepAtRef s = 400 \<longrightarrow> \<not> stepDetected v ev now s)) \<and>
   (stepDetected v ev now s \<and> now' - now \<le> 400 \<longrightarrow>
      \<not> stepDetected v ev' now' (handleMotion v ev now s)) \<and>
   sorted_wrt (\<lambda>t t'. t' - t > 400) (stepTimes v samples s) \<and>
   STEP_THRESHOLD = Fin (2476979795053773 / 2251799813685248)"
proof (intro conjI impI)
  assume a: "selectAcceleration ev = Some a"
  show "stepDetected v ev now s \<longleftrightarrow> js_gt (deviation a s) STEP_THRESHOLD \<and> now - lastStepAtRef s > 400"
    using stepDetected_iff[OF a] by (simp add: MIN_STEP_INTERVAL_MS_def)
  show "deviation a s = STEP_THRESHOLD \<or> now - lastStepAtRef s = 400 \<Longrightarrow> \<not> stepDetected v ev now s"
    using stepDetected_iff[OF a, of v now s]
    by (auto simp: STEP_THRESHOLD_exact MIN_STEP_INTERVAL_MS_def)
  show "stepDetected v ev now s \<Longrightarrow> steps (handleMotion v ev now s) = steps s + stepIncrement v"
    using stepDetected_iff[OF a, of v now s] by (simp add: handleMotion_reading[OF a])
  show "stepDetected v ev now s \<Longrightarrow> lastStepAtRef (handleMotion v ev now s) = now"
    by (simp add: lastStepAtRef_handleMotion)
next
  assume "stepDetected v ev now s \<and> now' - now \<le> 400"
  then have "now' - lastStepAtRef (handleMotion v ev now s) \<le> 400"
    by (simp add: lastStepAtRef_handleMotion)
  then show "\<not> stepDetected v ev' now' (handleMotion v ev now s)"
    using stepDetected_elapsed[of v ev' now' "handleMotion v ev now s"] by linarith
next
  show "sorted_wrt (\<lambda>t t'. t' - t > 400) (stepTimes v samples s)"
    by (rule stepTimes_spaced)
next
  show "STEP_THRESHOLD = Fin (2476979795053773 / 2251799813685248)"
    by (rule STEP_THRESHOLD_exact)
qed

theorem C1_witness:
  "selectAcceleration restEvent = Some restReading \<and>
   stepDetected Basic restEvent 1700000000000 (initialApp Basic) \<and>
   1700000000300 - 1700000000000 \<le> (400::int) \<and>
   \<not> stepDetected Basic restEvent 1700000000300
       (handleMotion Basic restEvent 1700000000000 (initialApp Basic)) \<and>
   steps (handleMotion Basic restEvent 1700000000000 (initialApp Basic)) = 1"
proof -
  have d: "js_gt (deviation restReading (initialApp Basic)) STEP_THRESHOLD"
    by (rule crossing_zero_from_gravity[OF filtered_initialApp magnitude_restReading])
  have l: "1700000000000 - lastStepAtRef (initialApp Basic) > 400"
    by (simp add: initialApp_def)
  show ?thesis
    using C1_step_iff_threshold_and_refractory
      [of restEvent restReading Basic 1700000000000 "initialApp Basic" 1700000000300 restEvent "[]"]
      select_restEvent d l
    by (simp add: initialApp_def)
qed

subsection \<open>Filter update\<close>

lemma lowpass_rest: "lowpass GRAVITY (Fin 0) = Fin (4418031234450457 / 562949953421312)"
proof -
  have p1: "js_round (3602879701896397 / 4503599627370496 * (5522539043063071 / 562949953421312))
              = Fin (of_int 8836062468900914 * (1 / 2 ^ 50))"
    by (rule js_round_exact[where e = 2]) (simp_all add: powr_minus_divide powr_realpow)
  have s: "js_round (of_int 8836062468900914 * (1 / 2 ^ 50)) = Fin (of_int 8836062468900914 * (1 / 2 ^ 50))"
    by (rule js_round_exact[where e = 2]) (simp_all add: powr_minus_divide powr_realpow)
  show ?thesis
    apply (simp only: lowpass_def complement_exact)
    apply (simp only: SMOOTHING_exact GRAVITY_exact)
    using p1 s by (simp add: js_round_zero)
qed

lemma handleMotion_zero_fresh:
  assumes "selectAcceleration ev = Some a" "magnitude a = Fin 0"
    and "filteredMagnitudeRef s = GRAVITY" "now - lastStepAtRef s > 400"
  shows "handleMotion v ev now s =
           s\<lparr>filteredMagnitudeRef := Fin (4418031234450457 / 562949953421312),
             lastStepAtRef := now, steps := steps s + stepIncrement v\<rparr>"
proof -
  have d: "js_gt (deviation a s) STEP_THRESHOLD"
    by (rule crossing_zero_from_gravity[OF assms(3,2)])
  have l: "now - lastStepAtRef s > MIN_STEP_INTERVAL_MS"
    using assms(4) by (simp add: MIN_STEP_INTERVAL_MS_def)
  have f: "lowpass (filteredMagnitudeRef s) (magnitude a) = Fin (4418031234450457 / 562949953421312)"
    by (simp add: assms(2,3) lowpass_rest)
  show ?thesis
    using d l by (simp add: handleMotion_reading[OF assms(1)] f)
qed

lemma handleMotion_zero_initial:
  assumes "selectAcceleration ev = Some a" "magnitude a = Fin 0" "400 < now"
  shows "handleMotion v ev now (initialApp v) =
           (initialApp v)\<lparr>filteredMagnitudeRef := Fin (4418031234450457 / 562949953421312),
                             lastStepAtRef := now, steps := initialSteps v + stepIncrement v\<rparr>"
proof -
  have "now - lastStepAtRef (initialApp v) > 400" using assms(3) by (simp add: initialApp_def)
  from handleMotion_zero_fresh[OF assms(1,2) filtered_initialApp this]
  show ?thesis by (simp add: initialApp_def)
qed

lemma handleMotion_surge_initial:
  assumes "400 < now"
  shows "handleMotion v surgeEvent now (initialApp v) =
           (initialApp v)\<lparr>filteredMagnitudeRef := Fin 35601047028549256,
                             lastStepAtRef := now, steps := initialSteps v + stepIncrement v\<rparr>"
proof -
  have d: "js_gt (deviation surgeReading (initialApp v)) STEP_THRESHOLD"
    by (simp add: deviation_surge[OF filtered_initialApp] crossing_four)
  have l: "now - lastStepAtRef (initialApp v) > MIN_STEP_INTERVAL_MS"
    using assms by (simp add: initialApp_def MIN_STEP_INTERVAL_MS_def)
  have f: "lowpass (filteredMagnitudeRef (initialApp v)) (magnitude surgeReading) = Fin 35601047028549256"
    by (simp add: filtered_initialApp magnitude_surgeReading lowpass_surge)
  show ?thesis
    using d l by (simp add: handleMotion_reading[OF select_surgeEvent] f) (simp add: initialApp_def)
qed

text \<open>
  Claim C6, as stated, fails in two ways. A sample whose reading object is present but
  reports no axis at all (all three axes null) is not ignored: it is processed as a
  reading of magnitude 0, so from the initial state it changes the filter value and is
  counted as a step. And the value stored is not \<open>0.8 * filtered + 0.2 * m\<close>: it is that
  expression evaluated in double precision, which from the initial state and magnitude 0
  is the double \<^verbatim>\<open>7.848000000000001\<close> and not four fifths of the stored gravity constant, and
  which for a large reading is off by more than 6.
\<close>

theorem C6_counterexample:
  "accelerationIncludingGravity allNullEvent = Some \<lparr>acc_x = None, acc_y = None, acc_z = None\<rparr> \<and>
   handleMotion Basic allNullEvent 1700000000000 (initialApp Basic) =
     (initialApp Basic)\<lparr>filteredMagnitudeRef := Fin (4418031234450457 / 562949953421312),
                           lastStepAtRef := 1700000000000, steps := 1\<rparr> \<and>
   stepDetected Basic allNullEvent 1700000000000 (initialApp Basic) \<and>
   filteredMagnitudeRef (initialApp Basic) = Fin (5522539043063071 / 562949953421312) \<and>
   (4418031234450457 / 562949953421312 :: real) \<noteq> 4/5 * (5522539043063071 / 562949953421312) + 1/5 * 0 \<and>
   magnitude surgeReading = Fin 178005235142746272 \<and>
   filteredMagnitudeRef (handleMotion Basic surgeEvent 1700000000000 (initialApp Basic)) =
     Fin 35601047028549256 \<and>
   6 < \<bar>35601047028549256 - (4/5 * (5522539043063071 / 562949953421312) + 1/5 * 178005235142746272 :: real)\<bar>"
proof -
  have h: "handleMotion Basic allNullEvent 1700000000000 (initialApp Basic) =
     (initialApp Basic)\<lparr>filteredMagnitudeRef := Fin (4418031234450457 / 562949953421312),
                           lastStepAtRef := 1700000000000, steps := 1\<rparr>"
    using handleMotion_zero_initial[OF select_allNullEvent magnitude_allNullReading, of 1700000000000 Basic]
    by simp
  have d: "stepDetected Basic allNullEvent 1700000000000 (initialApp Basic)"
    unfolding stepDetected_def h by (simp add: initialApp_def)
  have g: "filteredMagnitudeRef (initialApp Basic) = Fin (5522539043063071 / 562949953421312)"
    by (simp add: filtered_initialApp GRAVITY_exact)
  have s: "filteredMagnitudeRef (handleMotion Basic surgeEvent 1700000000000 (initialApp Basic)) =
     Fin 35601047028549256"
    by (simp add: handleMotion_surge_initial)
  show ?thesis
    using h d g s magnitude_surgeReading by (simp add: allNullEvent_def allNullReading_def)
qed

text \<open>
  Claim C6, amended. A sample whose two reading objects are both null leaves the whole
  state as it is (filter value, time of the last step and counter included). A sample
  with a reading object is always processed, whether or not a step is detected, also
  when all its axes are null: the magnitude is computed with every missing axis read as
  0 (so it is 0 when all three are missing), and the filter value is set to
  \<open>0.8 * filtered + (1 - 0.8) * m\<close> evaluated in double precision, every operation
  rounded. For a filter value and a magnitude of at most 4000 in absolute value the
  result is finite and within \<open>10\<^sup>-\<^sup>7\<close> of \<open>0.8 * filtered + 0.2 * m\<close>, and for axes of at
  most 1000 in absolute value the magnitude is finite and within \<open>10\<^sup>-\<^sup>4\<close> of the square
  root of the sum of the squares.
\<close>

theorem C6_reading_always_filtered:
  "(accelerationIncludingGravity ev = None \<and> acceleration ev = None \<longrightarrow>
      handleMotion v ev now s = s) \<and>
   (selectAcceleration ev = Some a \<longrightarrow>
      filteredMagnitudeRef (handleMotion v ev now s) =
        js_add (js_mul SMOOTHING (filteredMagnitudeRef s))
               (js_mul (js_sub (Fin 1) SMOOTHING) (magnitude a)) \<and>
      magnitude a =
        js_sqrt (js_add (js_add (js_mul (nullish (acc_x a) (Fin 0)) (nullish (acc_x a) (Fin 0)))
                                (js_mul (nullish (acc_y a) (Fin 0)) (nullish (acc_y a) (Fin 0))))
                        (js_mul (nullish (acc_z a) (Fin 0)) (nullish (acc_z a) (Fin 0))))) \<and>
   (acc_x a = None \<and> acc_y a = None \<and> acc_z a = None \<longrightarrow> magnitude a = Fin 0) \<and>
   (selectAcceleration ev = Some a \<and> filteredMagnitudeRef s = Fin f \<and> magnitude a = Fin m \<and>
    \<bar>f\<bar> \<le> 4000 \<and> \<bar>m\<bar> \<le> 4000 \<longrightarrow>
      finite_num (filteredMagnitudeRef (handleMotion v ev now s)) \<and>
      \<bar>val (filteredMagnitudeRef (handleMotion v ev now s)) - (4/5 * f + 1/5 * m)\<bar> \<le> 1 / 10000000) \<and>
   (nullish (acc_x a) (Fin 0) = Fin x \<and> nullish (acc_y a) (Fin 0) = Fin y \<and>
    nullish (acc_z a) (Fin 0) = Fin z \<and> \<bar>x\<bar> \<le> 1000 \<and> \<bar>y\<bar> \<le> 1000 \<and> \<bar>z\<bar> \<le> 1000 \<longrightarrow>
      finite_num (magnitude a) \<and> 0 \<le> val (magnitude a) \<and>
      \<bar>val (magnitude a) - sqrt (x * x + y * y + z * z)\<bar> \<le> 1 / 10000) \<and>
   SMOOTHING = Fin (3602879701896397 / 4503599627370496) \<and>
   js_sub (Fin 1) SMOOTHING = Fin (900719925474099 / 4503599627370496)"
proof (intro conjI impI)
  assume "accelerationIncludingGravity ev = None \<and> acceleration ev = None"
  then have "selectAcceleration ev = None" by (simp add: selectAcceleration_def)
  then show "handleMotion v ev now s = s" by (rule handleMotion_no_reading)
next
  assume "selectAcceleration ev = Some a"
  then show "filteredMagnitudeRef (handleMotion v ev now s) =
        js_add (js_mul SMOOTHING (filteredMagnitudeRef s))
               (js_mul (js_sub (Fin 1) SMOOTHING) (magnitude a))"
    by (simp add: filtered_handleMotion_reading lowpass_def)
next
  show "magnitude a =
        js_sqrt (js_add (js_add (js_mul (nullish (acc_x a) (Fin 0)) (nullish (acc_x a) (Fin 0)))
                                (js_mul (nullish (acc_y a) (Fin 0)) (nullish (acc_y a) (Fin 0))))
                        (js_mul (nullish (acc_z a) (Fin 0)) (nullish (acc_z a) (Fin 0))))"
    by (simp add: magnitude_def Let_def)
next
  assume "acc_x a = None \<and> acc_y a = None \<and> acc_z a = None"
  then show "magnitude a = Fin 0" by (intro magnitude_zero) simp_all
next
  assume h: "selectAcceleration ev = Some a \<and> filteredMagnitudeRef s = Fin f \<and> magnitude a = Fin m \<and>
    \<bar>f\<bar> \<le> 4000 \<and> \<bar>m\<bar> \<le> 4000"
  then have a: "selectAcceleration ev = Some a" and f: "filteredMagnitudeRef s = Fin f"
    and m: "magnitude a = Fin m" and bf: "\<bar>f\<bar> \<le> 4000" and bm: "\<bar>m\<bar> \<le> 4000"
    by simp_all
  from filter_after_reading(1)[OF a f m bf bm, of v now]
  show "finite_num (filteredMagnitudeRef (handleMotion v ev now s))"
    by (simp add: finite_num_iff)
  show "\<bar>val (filteredMagnitudeRef (handleMotion v ev now s)) - (4/5 * f + 1/5 * m)\<bar> \<le> 1 / 10000000"
    by (rule filter_after_reading(2)[OF a f m bf bm])
next
  assume h: "nullish (acc_x a) (Fin 0) = Fin x \<and> nullish (acc_y a) (Fin 0) = Fin y \<and>
    nullish (acc_z a) (Fin 0) = Fin z \<and> \<bar>x\<bar> \<le> 1000 \<and> \<bar>y\<bar> \<le> 1000 \<and> \<bar>z\<bar> \<le> 1000"
  then have n: "nullish (acc_x a) (Fin 0) = Fin x" "nullish (acc_y a) (Fin 0) = Fin y"
    "nullish (acc_z a) (Fin 0) = Fin z" and b: "\<bar>x\<bar> \<le> 1000" "\<bar>y\<bar> \<le> 1000" "\<bar>z\<bar> \<le> 1000"
    by simp_all
  from magnitude_near(1)[OF n b] show "finite_num (magnitude a)" by (simp add: finite_num_iff)
  show "0 \<le> val (magnitude a)" by (rule magnitude_near(2)[OF n b])
  show "\<bar>val (magnitude a) - sqrt (x * x + y * y + z * z)\<bar> \<le> 1 / 10000"
    by (rule magnitude_near(3)[OF n b])
next
  show "SMOOTHING = Fin (3602879701896397 / 4503599627370496)" by (rule SMOOTHING_exact)
  show "js_sub (Fin 1) SMOOTHING = Fin (900719925474099 / 4503599627370496)" by (rule complement_exact)
qed

theorem C6_witness:
  "accelerationIncludingGravity emptyEvent = None \<and> acceleration emptyEvent = None \<and>
   handleMotion Chat emptyEvent 1700000000000 (initialApp Chat) = initialApp Chat \<and>
   selectAcceleration restEvent = Some restReading \<and>
   filteredMagnitudeRef (initialApp Chat) = Fin (5522539043063071 / 562949953421312) \<and>
   magnitude restReading = Fin 0 \<and>
   finite_num (filteredMagnitudeRef (handleMotion Chat restEvent 1700000000000 (initialApp Chat))) \<and>
   \<bar>val (filteredMagnitudeRef (handleMotion Chat restEvent 1700000000000 (initialApp Chat)))
      - (4/5 * (5522539043063071 / 562949953421312) + 1/5 * 0)\<bar> \<le> 1 / 10000000 \<and>
   acc_x allNullReading = None \<and> acc_y allNullReading = None \<and> acc_z allNullReading = None \<and>
   magnitude allNullReading = Fin 0 \<and>
   nullish (acc_x gravityReading) (Fin 0) = Fin 0 \<and>
   nullish (acc_y gravityReading) (Fin 0) = Fin 0 \<and>
   nullish (acc_z gravityReading) (Fin 0) = Fin (5522539043063071 / 562949953421312) \<and>
   finite_num (magnitude gravityReading) \<and>
   \<bar>val (magnitude gravityReading) - 5522539043063071 / 562949953421312\<bar> \<le> 1 / 10000"
proof -
  have e: "accelerationIncludingGravity emptyEvent = None \<and> acceleration emptyEvent = None"
    by (simp add: emptyEvent_def)
  have g: "filteredMagnitudeRef (initialApp Chat) = Fin (5522539043063071 / 562949953421312)"
    by (simp add: filtered_initialApp GRAVITY_exact)
  have n: "nullish (acc_x gravityReading) (Fin 0) = Fin 0"
    "nullish (acc_y gravityReading) (Fin 0) = Fin 0"
    "nullish (acc_z gravityReading) (Fin 0) = Fin (5522539043063071 / 562949953421312)"
    by (simp_all add: gravityReading_def GRAVITY_exact)
  have z: "acc_x allNullReading = None \<and> acc_y allNullReading = None \<and> acc_z allNullReading = None"
    by (simp add: allNullReading_def)
  have qq: "\<And>c::real. 0 \<le> c \<Longrightarrow> sqrt (0 * 0 + 0 * 0 + c * c) = c" by simp
  have q: "sqrt (0 * 0 + 0 * 0 + 5522539043063071 / 562949953421312 * (5522539043063071 / 562949953421312))
             = (5522539043063071 / 562949953421312 :: real)"
    by (rule qq) simp
  from C6_reading_always_filtered[where ev = emptyEvent and a = allNullReading and v = Chat
         and now = 1700000000000 and s = "initialApp Chat"] e z
  have 1: "handleMotion Chat emptyEvent 1700000000000 (initialApp Chat) = initialApp Chat"
    and 2: "magnitude allNullReading = Fin 0"
    by blast+
  from C6_reading_always_filtered
         [where ev = restEvent and a = restReading and v = Chat and now = 1700000000000
            and s = "initialApp Chat" and f = "5522539043063071 / 562949953421312" and m = 0]
       select_restEvent g magnitude_restReading
  have "\<bar>5522539043063071 / 562949953421312\<bar> \<le> (4000::real) \<Longrightarrow> \<bar>0\<bar> \<le> (4000::real) \<Longrightarrow>
      finite_num (filteredMagnitudeRef (handleMotion Chat restEvent 1700000000000 (initialApp Chat))) \<and>
      \<bar>val (filteredMagnitudeRef (handleMotion Chat restEvent 1700000000000 (initialApp Chat)))
      - (4/5 * (5522539043063071 / 562949953421312) + 1/5 * 0)\<bar> \<le> 1 / 10000000"
    by blast
  then have 3: "finite_num (filteredMagnitudeRef (handleMotion Chat restEvent 1700000000000 (initialApp Chat)))"
    and 4: "\<bar>val (filteredMagnitudeRef (handleMotion Chat restEvent 1700000000000 (initialApp Chat)))
      - (4/5 * (5522539043063071 / 562949953421312) + 1/5 * 0)\<bar> \<le> 1 / 10000000"
    by simp_all
  from C6_reading_always_filtered
         [where a = gravityReading and x = 0 and y = 0
            and z = "5522539043063071 / 562949953421312"] n
  have "\<bar>0\<bar> \<le> (1000::real) \<Longrightarrow> \<bar>5522539043063071 / 562949953421312\<bar> \<le> (1000::real) \<Longrightarrow>
      finite_num (magnitude gravityReading) \<and>
      \<bar>val (magnitude gravityReading) - 5522539043063071 / 562949953421312\<bar> \<le> 1 / 10000"
    unfolding q by blast
  then have 5: "finite_num (magnitude gravityReading)"
    and 6: "\<bar>val (magnitude gravityReading) - 5522539043063071 / 562949953421312\<bar> \<le> 1 / 10000"
    by simp_all
  from e 1 2 3 4 5 6 z n g select_restEvent magnitude_restReading show ?thesis by blast
qed

subsection \<open>Streams of constant magnitude\<close>

lemma handleMotion_big_fixed:
  assumes "filteredMagnitudeRef s = Fin 35601047028549256" "now - lastStepAtRef s > 400"
  shows "handleMotion v bigEvent now s = s\<lparr>lastStepAtRef := now, steps := steps s + stepIncrement v\<rparr>"
    and "stepDetected v bigEvent now s"
proof -
  have d: "js_gt (deviation bigReading s) STEP_THRESHOLD"
    by (simp add: deviation_big[OF assms(1)] crossing_four)
  have f: "lowpass (filteredMagnitudeRef s) (magnitude bigReading) = Fin 35601047028549256"
    by (simp add: assms(1) magnitude_bigReading lowpass_big_fixed)
  have "s\<lparr>filteredMagnitudeRef := Fin 35601047028549256\<rparr> = s" using assms(1) by simp
  then show "handleMotion v bigEvent now s = s\<lparr>lastStepAtRef := now, steps := steps s + stepIncrement v\<rparr>"
    using d assms(2) by (simp add: handleMotion_reading[OF select_bigEvent] f MIN_STEP_INTERVAL_MS_def)
  show "stepDetected v bigEvent now s"
    using d assms(2) by (simp add: stepDetected_iff[OF select_bigEvent] MIN_STEP_INTERVAL_MS_def)
qed

lemma constantMagnitude_restStream: "constantMagnitude 0 (restStream n)"
  by (simp add: constantMagnitude_def restStream_def list_all_iff select_restEvent magnitude_restReading)

lemma length_restStream: "length (restStream n) = n"
  by (simp add: restStream_def)

lemma power_34: "(4/5 :: real) ^ 34 \<le> 6 / 10000"
  by (simp add: power_divide)

lemma decay_34:
  fixes d :: real
  assumes "34 \<le> n" "0 \<le> d" "d \<le> 2000"
  shows "(4/5) ^ n * d + 1 / 1000000 \<le> 5/4"
proof -
  have "(4/5 :: real) ^ n \<le> (4/5) ^ 34" using assms(1) by (intro power_decreasing) simp_all
  with power_34 have "(4/5 :: real) ^ n \<le> 6 / 10000" by linarith
  then have "(4/5) ^ n * d \<le> 6 / 10000 * 2000"
    using assms(2,3) by (intro mult_mono) simp_all
  then show ?thesis by simp
qed

lemma two_rest_steps:
  "stepTimes Basic [(restEvent, 1700000000000), (restEvent, 1700000000500)] (initialApp Basic)
     = [1700000000000, 1700000000500]"
proof -
  define s1 where "s1 = handleMotion Basic restEvent 1700000000000 (initialApp Basic)"
  have s1: "s1 = (initialApp Basic)\<lparr>filteredMagnitudeRef := Fin (4418031234450457 / 562949953421312),
                             lastStepAtRef := 1700000000000, steps := initialSteps Basic + stepIncrement Basic\<rparr>"
    unfolding s1_def by (rule handleMotion_zero_initial[OF select_restEvent magnitude_restReading]) simp
  have 1: "stepDetected Basic restEvent 1700000000000 (initialApp Basic)"
    unfolding stepDetected_def s1_def[symmetric] s1 by (simp add: initialApp_def)
  have f: "filteredMagnitudeRef s1 = Fin (4418031234450457 / 562949953421312)" by (simp add: s1)
  have "js_gt (deviation restReading s1) STEP_THRESHOLD"
    by (rule crossing_if_far[OF f magnitude_restReading]) simp_all
  then have 2: "stepDetected Basic restEvent 1700000000500 s1"
    by (simp add: stepDetected_iff[OF select_restEvent] MIN_STEP_INTERVAL_MS_def s1)
  show ?thesis using 1 2 by (simp add: s1_def)
qed

text \<open>
  Claim C5, as stated, fails. A device at rest that reports magnitude 0 in every sample
  is counted as stepping at the first sample and again at the second sample 500 ms
  later: the filter starts at gravity and the deviation shrinks only by a fifth per
  sample. And the deviation does not converge to 0 for every magnitude: after one
  reading that brings the filter to \<open>35601047028549256\<close>, a constant magnitude of
  \<open>35601047028549260\<close> leaves the filter where it is (the update is rounded), the
  deviation is 4 at every sample, and every sample 500 ms after the last one is counted.
\<close>

theorem C5_counterexample:
  "constantMagnitude 0 [(restEvent, 1700000000000), (restEvent, 1700000000500)] \<and>
   stepTimes Basic [(restEvent, 1700000000000), (restEvent, 1700000000500)] (initialApp Basic)
     = [1700000000000, 1700000000500] \<and>
   steps (runSamples Basic [(restEvent, 1700000000000), (restEvent, 1700000000500)] (initialApp Basic)) = 2 \<and>
   filteredMagnitudeRef (handleMotion Basic surgeEvent 1700000000000 (initialApp Basic))
     = Fin 35601047028549256 \<and>
   constantMagnitude 35601047028549260
     [(bigEvent, 1700000000500), (bigEvent, 1700000001000), (bigEvent, 1700000001500)] \<and>
   stepTimes Basic [(bigEvent, 1700000000500), (bigEvent, 1700000001000), (bigEvent, 1700000001500)]
       (handleMotion Basic surgeEvent 1700000000000 (initialApp Basic))
     = [1700000000500, 1700000001000, 1700000001500] \<and>
   filteredMagnitudeRef
     (runSamples Basic [(bigEvent, 1700000000500), (bigEvent, 1700000001000), (bigEvent, 1700000001500)]
        (handleMotion Basic surgeEvent 1700000000000 (initialApp Basic)))
     = Fin 35601047028549256 \<and>
   deviation bigReading
     (runSamples Basic [(bigEvent, 1700000000500), (bigEvent, 1700000001000), (bigEvent, 1700000001500)]
        (handleMotion Basic surgeEvent 1700000000000 (initialApp Basic)))
     = Fin 4"
proof -
  have c0: "constantMagnitude 0 [(restEvent, 1700000000000), (restEvent, 1700000000500)]"
    by (simp add: constantMagnitude_def select_restEvent magnitude_restReading)
  note t = two_rest_steps
  have n: "steps (runSamples Basic [(restEvent, 1700000000000), (restEvent, 1700000000500)] (initialApp Basic)) = 2"
    unfolding steps_runSamples t by (simp add: initialApp_def)
  define s0 where "s0 = handleMotion Basic surgeEvent 1700000000000 (initialApp Basic)"
  have s0: "s0 = (initialApp Basic)\<lparr>filteredMagnitudeRef := Fin 35601047028549256,
                     lastStepAtRef := 1700000000000, steps := initialSteps Basic + stepIncrement Basic\<rparr>"
    unfolding s0_def by (rule handleMotion_surge_initial) simp
  have f0: "filteredMagnitudeRef s0 = Fin 35601047028549256" by (simp add: s0)
  have cM: "constantMagnitude 35601047028549260
     [(bigEvent, 1700000000500), (bigEvent, 1700000001000), (bigEvent, 1700000001500)]"
    by (simp add: constantMagnitude_def select_bigEvent magnitude_bigReading)
  define s1 where "s1 = handleMotion Basic bigEvent 1700000000500 s0"
  have l0: "1700000000500 - lastStepAtRef s0 > 400" by (simp add: s0)
  note h1 = handleMotion_big_fixed[OF f0 l0, of Basic, folded s1_def]
  have f1: "filteredMagnitudeRef s1 = Fin 35601047028549256" and l1: "1700000001000 - lastStepAtRef s1 > 400"
    by (simp_all add: h1(1) f0)
  define s2 where "s2 = handleMotion Basic bigEvent 1700000001000 s1"
  note h2 = handleMotion_big_fixed[OF f1 l1, of Basic, folded s2_def]
  have f2: "filteredMagnitudeRef s2 = Fin 35601047028549256" and l2: "1700000001500 - lastStepAtRef s2 > 400"
    by (simp_all add: h2(1) f1)
  define s3 where "s3 = handleMotion Basic bigEvent 1700000001500 s2"
  note h3 = handleMotion_big_fixed[OF f2 l2, of Basic, folded s3_def]
  have f3: "filteredMagnitudeRef s3 = Fin 35601047028549256"
    by (simp add: h3(1) f2)
  have st: "stepTimes Basic [(bigEvent, 1700000000500), (bigEvent, 1700000001000), (bigEvent, 1700000001500)] s0
     = [1700000000500, 1700000001000, 1700000001500]"
    using handleMotion_big_fixed(2)[OF f0 l0, of Basic] handleMotion_big_fixed(2)[OF f1 l1, of Basic]
      handleMotion_big_fixed(2)[OF f2 l2, of Basic]
    by (simp add: s1_def[symmetric] s2_def[symmetric])
  have r: "runSamples Basic [(bigEvent, 1700000000500), (bigEvent, 1700000001000), (bigEvent, 1700000001500)] s0 = s3"
    by (simp add: runSamples_Cons runSamples_Nil s1_def s2_def s3_def)
  have d: "deviation bigReading s3 = Fin 4" by (rule deviation_big[OF f3])
  show ?thesis
    using c0 t n f0 cM st r f3 d unfolding s0_def by simp
qed

text \<open>
  Claim C5, amended. Take a stream of samples whose magnitude is held constant at a
  value \<open>m\<close> of at most 1000 in absolute value, processed from a finite filter value
  \<open>f\<close> of at most 1000 in absolute value. After the first \<open>k\<close> samples the filter value
  is finite and within \<open>0.8^k * |m - f| + 10\<^sup>-\<^sup>6\<close> of \<open>m\<close>. Once that bound is at most
  1.25, which is so after the first 34 samples at the latest, no sample is detected as
  a step and the counter no longer changes, however long the stream is. If \<open>|m - f|\<close>
  is at most 1.25, no sample of the stream is a step. And once the deviation of a
  sample does not exceed the threshold, neither that sample nor any later one is a
  step.
\<close>

theorem C5_constant_magnitude_decay:
  "constantMagnitude m (pre @ post) \<and> filteredMagnitudeRef s = Fin f \<and> \<bar>m\<bar> \<le> 1000 \<and> \<bar>f\<bar> \<le> 1000 \<longrightarrow>
     finite_num (filteredMagnitudeRef (runSamples v pre s)) \<and>
     \<bar>m - val (filteredMagnitudeRef (runSamples v pre s))\<bar>
        \<le> (4/5) ^ length pre * \<bar>m - f\<bar> + 1 / 1000000 \<and>
     ((4/5) ^ length pre * \<bar>m - f\<bar> + 1 / 1000000 \<le> 5/4 \<longrightarrow>
        stepTimes v post (runSamples v pre s) = [] \<and>
        steps (runSamples v (pre @ post) s) = steps (runSamples v pre s)) \<and>
     (34 \<le> length pre \<longrightarrow>
        stepTimes v post (runSamples v pre s) = [] \<and>
        steps (runSamples v (pre @ post) s) = steps (runSamples v pre s)) \<and>
     (\<bar>m - f\<bar> \<le> 5/4 \<longrightarrow> stepTimes v (pre @ post) s = []) \<and>
     (\<forall>ev now a rest.
        post = (ev, now) # rest \<and> selectAcceleration ev = Some a \<and>
        \<not> js_gt (deviation a (runSamples v pre s)) STEP_THRESHOLD \<longrightarrow>
          stepTimes v post (runSamples v pre s) = [])"
proof (intro impI)
  assume h: "constantMagnitude m (pre @ post) \<and> filteredMagnitudeRef s = Fin f \<and> \<bar>m\<bar> \<le> 1000 \<and> \<bar>f\<bar> \<le> 1000"
  then have cpre: "constantMagnitude m pre" and cpost: "constantMagnitude m post"
    and f: "filteredMagnitudeRef s = Fin f" and bm: "\<bar>m\<bar> \<le> 1000" and bf: "\<bar>f\<bar> \<le> 1000"
    by (simp_all add: constantMagnitude_append)
  have d: "\<bar>m - f\<bar> \<le> 2000" using bm bf by linarith
  define s' where "s' = runSamples v pre s"
  define f' where "f' = val (filteredMagnitudeRef s')"
  have fin: "filteredMagnitudeRef s' = Fin f'"
    unfolding f'_def s'_def using constant_run_decay[OF cpre bm f d, of v] by blast
  have near: "\<bar>m - f'\<bar> \<le> (4/5) ^ length pre * \<bar>m - f\<bar> + 1 / 1000000"
    unfolding f'_def s'_def by (rule constant_run_near[OF cpre bm f d])
  have settled: "stepTimes v post s' = []" if "(4/5) ^ length pre * \<bar>m - f\<bar> + 1 / 1000000 \<le> 5/4"
  proof -
    from near that have "\<bar>m - f'\<bar> \<le> 5/4" by (rule order_trans)
    from constant_run_quiet[OF cpost bm fin this] show ?thesis .
  qed
  have late: "stepTimes v post s' = []" if "34 \<le> length pre"
  proof -
    have "(4/5) ^ length pre * \<bar>m - f\<bar> + 1 / 1000000 \<le> 5/4"
      using that d by (intro decay_34) simp_all
    then show ?thesis by (rule settled)
  qed
  have quiet: "stepTimes v (pre @ post) s = []" if "\<bar>m - f\<bar> \<le> 5/4"
    using constant_run_quiet[OF _ bm f that, of "pre @ post" v] h by blast
  have once: "stepTimes v post s' = []"
    if p: "post = (ev, now) # rest" and a: "selectAcceleration ev = Some a"
      and q: "\<not> js_gt (deviation a s') STEP_THRESHOLD" for ev now a rest
  proof -
    from cpost p a have ma: "magnitude a = Fin m" and crest: "constantMagnitude m rest"
      by (simp_all add: constantMagnitude_def)
    define D where "D = \<bar>m - f\<bar>"
    define X where "X = (4/5) ^ length pre * D"
    have "(4/5 :: real) ^ length pre \<le> 1" by (intro power_le_one) simp_all
    then have "(4/5) ^ length pre * D \<le> 1 * D" unfolding D_def by (intro mult_right_mono) simp_all
    then have x: "X \<le> D" by (simp add: X_def)
    have "\<bar>m - f'\<bar> \<le> X + 1 / 1000000" using near by (simp add: X_def D_def)
    with x d have "\<bar>m - f'\<bar> \<le> 2001" unfolding D_def[symmetric] by linarith
    with bm have rf: "\<bar>f'\<bar> \<le> 4000" by linarith
    have rm: "\<bar>m\<bar> \<le> 4000" using bm by linarith
    define f'' where "f'' = val (filteredMagnitudeRef (handleMotion v ev now s'))"
    have fin'': "filteredMagnitudeRef (handleMotion v ev now s') = Fin f''"
      unfolding f''_def by (rule filter_after_reading(1)[OF a fin ma rf rm])
    have close: "\<bar>m - f''\<bar> \<le> 5/4"
      unfolding f''_def by (rule quiet_then_close[OF a fin ma rf rm q])
    have "\<not> stepDetected v ev now s'" using q by (simp add: stepDetected_iff[OF a])
    moreover have "stepTimes v rest (handleMotion v ev now s') = []"
      by (rule constant_run_quiet[OF crest bm fin'' close])
    ultimately show ?thesis by (simp add: p)
  qed
  show "finite_num (filteredMagnitudeRef (runSamples v pre s)) \<and>
     \<bar>m - val (filteredMagnitudeRef (runSamples v pre s))\<bar>
        \<le> (4/5) ^ length pre * \<bar>m - f\<bar> + 1 / 1000000 \<and>
     ((4/5) ^ length pre * \<bar>m - f\<bar> + 1 / 1000000 \<le> 5/4 \<longrightarrow>
        stepTimes v post (runSamples v pre s) = [] \<and>
        steps (runSamples v (pre @ post) s) = steps (runSamples v pre s)) \<and>
     (34 \<le> length pre \<longrightarrow>
        stepTimes v post (runSamples v pre s) = [] \<and>
        steps (runSamples v (pre @ post) s) = steps (runSamples v pre s)) \<and>
     (\<bar>m - f\<bar> \<le> 5/4 \<longrightarrow> stepTimes v (pre @ post) s = []) \<and>
     (\<forall>ev now a rest.
        post = (ev, now) # rest \<and> selectAcceleration ev = Some a \<and>
        \<not> js_gt (deviation a (runSamples v pre s)) STEP_THRESHOLD \<longrightarrow>
          stepTimes v post (runSamples v pre s) = [])"
  proof (intro conjI impI allI)
    show "finite_num (filteredMagnitudeRef (runSamples v pre s))"
      using fin by (simp add: s'_def)
    show "\<bar>m - val (filteredMagnitudeRef (runSamples v pre s))\<bar>
        \<le> (4/5) ^ length pre * \<bar>m - f\<bar> + 1 / 1000000"
      using near by (simp add: f'_def s'_def)
    show "stepTimes v post (runSamples v pre s) = []"
      if "(4/5) ^ length pre * \<bar>m - f\<bar> + 1 / 1000000 \<le> 5/4"
      using settled[OF that] by (simp add: s'_def)
    show "steps (runSamples v (pre @ post) s) = steps (runSamples v pre s)"
      if "(4/5) ^ length pre * \<bar>m - f\<bar> + 1 / 1000000 \<le> 5/4"
      using settled[OF that] by (simp add: runSamples_append steps_runSamples[of v post] s'_def)
    show "stepTimes v post (runSamples v pre s) = []" if "34 \<le> length pre"
      using late[OF that] by (simp add: s'_def)
    show "steps (runSamples v (pre @ post) s) = steps (runSamples v pre s)" if "34 \<le> length pre"
      using late[OF that] by (simp add: runSamples_append steps_runSamples[of v post] s'_def)
    show "stepTimes v (pre @ post) s = []" if "\<bar>m - f\<bar> \<le> 5/4"
      by (rule quiet[OF that])
    show "stepTimes v post (runSamples v pre s) = []"
      if "post = (ev, now) # rest \<and> selectAcceleration ev = Some a \<and>
        \<not> js_gt (deviation a (runSamples v pre s)) STEP_THRESHOLD" for ev now a rest
      using once[of ev now rest a] that by (simp add: s'_def)
  qed
qed

theorem C5_witness:
  "constantMagnitude 0 (restStream 34 @ [(restEvent, 1700000017000), (restEvent, 1700000017500)]) \<and>
   filteredMagnitudeRef (initialApp Basic) = Fin (5522539043063071 / 562949953421312) \<and>
   finite_num (filteredMagnitudeRef (runSamples Basic (restStream 34) (initialApp Basic))) \<and>
   \<bar>0 - val (filteredMagnitudeRef (runSamples Basic (restStream 34) (initialApp Basic)))\<bar>
      \<le> (4/5) ^ 34 * \<bar>0 - 5522539043063071 / 562949953421312\<bar> + 1 / 1000000 \<and>
   (4/5) ^ 34 * \<bar>0 - 5522539043063071 / 562949953421312\<bar> + 1 / 1000000 \<le> (5/4 :: real) \<and>
   \<not> js_gt (deviation restReading (runSamples Basic (restStream 34) (initialApp Basic))) STEP_THRESHOLD \<and>
   stepTimes Basic [(restEvent, 1700000017000), (restEvent, 1700000017500)]
     (runSamples Basic (restStream 34) (initialApp Basic)) = [] \<and>
   steps (runSamples Basic (restStream 34 @ [(restEvent, 1700000017000), (restEvent, 1700000017500)])
            (initialApp Basic))
     = steps (runSamples Basic (restStream 34) (initialApp Basic)) \<and>
   constantMagnitude 0 ([] @ restStream 3) \<and>
   stepTimes Basic ([] @ restStream 3) ((initialApp Basic)\<lparr>filteredMagnitudeRef := Fin 1\<rparr>) = []"
proof -
  define g :: real where "g = 5522539043063071 / 562949953421312"
  define s34 where "s34 = runSamples Basic (restStream 34) (initialApp Basic)"
  have g: "filteredMagnitudeRef (initialApp Basic) = Fin g"
    by (simp add: filtered_initialApp GRAVITY_exact g_def)
  have c: "constantMagnitude 0 (restStream 34 @ [(restEvent, 1700000017000), (restEvent, 1700000017500)])"
    by (simp add: constantMagnitude_append constantMagnitude_restStream)
       (simp add: constantMagnitude_def select_restEvent magnitude_restReading)
  have b: "\<bar>0::real\<bar> \<le> 1000" "\<bar>g\<bar> \<le> 1000" by (simp_all add: g_def)
  note T = C5_constant_magnitude_decay
      [where m = 0 and pre = "restStream 34"
         and post = "[(restEvent, 1700000017000), (restEvent, 1700000017500)]"
         and v = Basic and s = "initialApp Basic" and f = g,
       unfolded length_restStream, folded s34_def]
  from T c g b have 1: "finite_num (filteredMagnitudeRef s34)"
    and 2: "\<bar>0 - val (filteredMagnitudeRef s34)\<bar> \<le> (4/5) ^ 34 * \<bar>0 - g\<bar> + 1 / 1000000"
    by blast+
  from T c g b have 3: "(34::nat) \<le> 34 \<Longrightarrow>
      stepTimes Basic [(restEvent, 1700000017000), (restEvent, 1700000017500)] s34 = [] \<and>
      steps (runSamples Basic (restStream 34 @ [(restEvent, 1700000017000), (restEvent, 1700000017500)])
            (initialApp Basic)) = steps s34"
    by blast
  have fin: "filteredMagnitudeRef s34 = Fin (val (filteredMagnitudeRef s34))"
    using 1 by (simp add: finite_num_iff)
  have p34: "(4/5) ^ 34 * \<bar>0 - g\<bar> \<le> 6 / 10000 * 10"
    by (intro mult_mono power_34) (simp_all add: g_def)
  then have b34: "(4/5) ^ 34 * \<bar>0 - g\<bar> + 1 / 1000000 \<le> 5/4" by linarith
  from T c g b b34 have 6: "stepTimes Basic [(restEvent, 1700000017000), (restEvent, 1700000017500)] s34 = []"
    by blast
  note p34
  with 2 have small: "\<bar>0 - val (filteredMagnitudeRef s34)\<bar> \<le> 1" by linarith
  then have rf: "\<bar>val (filteredMagnitudeRef s34)\<bar> \<le> 4000" by linarith
  from small have "\<bar>0 - val (filteredMagnitudeRef s34)\<bar> \<le> 5/4" by linarith
  then have close: "4/5 * \<bar>0 - val (filteredMagnitudeRef s34)\<bar> \<le> 1" by (rule close_scaled)
  have q: "\<not> js_gt (deviation restReading s34) STEP_THRESHOLD"
    by (rule quiet_if_close[OF fin magnitude_restReading rf _ close]) simp
  from T c g b q select_restEvent
  have 4: "stepTimes Basic [(restEvent, 1700000017000), (restEvent, 1700000017500)] s34 = []"
    by blast
  have c': "constantMagnitude 0 ([] @ restStream 3)"
    by (simp add: constantMagnitude_restStream)
  have "filteredMagnitudeRef ((initialApp Basic)\<lparr>filteredMagnitudeRef := Fin 1\<rparr>) = Fin 1" by simp
  moreover have "\<bar>0::real\<bar> \<le> 1000" "\<bar>1::real\<bar> \<le> 1000" "\<bar>0 - 1 :: real\<bar> \<le> 5/4" by simp_all
  ultimately have 5: "stepTimes Basic ([] @ restStream 3) ((initialApp Basic)\<lparr>filteredMagnitudeRef := Fin 1\<rparr>) = []"
    using C5_constant_magnitude_decay
      [where m = 0 and pre = "[]" and post = "restStream 3" and v = Basic
         and s = "(initialApp Basic)\<lparr>filteredMagnitudeRef := Fin 1\<rparr>" and f = 1] c'
    by blast
  from c g 1 2 3 q 4 c' 5 6 b34 show ?thesis unfolding s34_def g_def by simp
qed

subsection \<open>Readings out of range\<close>

lemma finiteAxes_hugeReading: "finiteAxes hugeReading" "axisBeyond (2 ^ 512) hugeReading"
proof -
  show "finiteAxes hugeReading" by (simp add: finiteAxes_def hugeReading_def GRAVITY_exact)
  have "(2::real) ^ 512 \<le> 2 ^ 600" by (rule power_increasing) simp_all
  then show "axisBeyond (2 ^ 512) hugeReading" by (simp add: axisBeyond_def hugeReading_def)
qed

lemma finiteAxes_gravityReading: "finiteAxes gravityReading"
  by (simp add: finiteAxes_def gravityReading_def GRAVITY_exact)

lemma finite_magnitude_gravityReading: "finite_num (magnitude gravityReading)"
  using magnitude_gravityReading(1) by (simp add: finite_num_iff)

lemma gravity_stream_quiet:
  assumes "filteredMagnitudeRef s = GRAVITY"
  shows "stepTimes v [(gravityEvent, t), (gravityEvent, t')] s = []"
proof -
  define m where "m = val (magnitude gravityReading)"
  have mg: "magnitude gravityReading = Fin m" unfolding m_def by (rule magnitude_gravityReading(1))
  have c: "constantMagnitude m [(gravityEvent, t), (gravityEvent, t')]"
    by (simp add: constantMagnitude_def select_gravityEvent mg)
  have f: "filteredMagnitudeRef s = Fin (val GRAVITY)" using assms GRAVITY_range(1) by simp
  have d: "\<bar>m - val GRAVITY\<bar> \<le> 1 / 10000" unfolding m_def by (rule magnitude_gravityReading(2))
  with GRAVITY_range(2,3) have bm: "\<bar>m\<bar> \<le> 1000" by linarith
  from d have "\<bar>m - val GRAVITY\<bar> \<le> 5/4" by linarith
  from constant_run_quiet[OF c bm f this] show ?thesis .
qed

lemma lowpass_nonneg:
  assumes "nonneg_num f" "nonneg_num m"
  shows "nonneg_num (lowpass f m)"
  unfolding lowpass_def
  by (intro nonneg_add nonneg_scaled[OF SMOOTHING_val(1) SMOOTHING_pos(1)]
        nonneg_scaled[OF complement_val(1) SMOOTHING_pos(2)] assms)

lemma handleMotion_nonneg:
  assumes "selectAcceleration ev = Some a" "finiteAxes a" "nonneg_num (filteredMagnitudeRef s)"
  shows "nonneg_num (filteredMagnitudeRef (handleMotion v ev now s))"
  unfolding filtered_handleMotion_reading[OF assms(1)]
  by (rule lowpass_nonneg[OF assms(3) magnitude_nonneg[OF assms(2)]])

lemma huge_then_gravity:
  "handleMotion Basic hugeEvent 1700000000000 (initialApp Basic)
     = (initialApp Basic)\<lparr>filteredMagnitudeRef := PInf\<rparr>"
  "stepTimes Basic [(hugeEvent, 1700000000000), (gravityEvent, 1700000000500), (gravityEvent, 1700000001000)]
     (initialApp Basic) = [1700000000500, 1700000001000]"
  "filteredMagnitudeRef
     (runSamples Basic [(hugeEvent, 1700000000000), (gravityEvent, 1700000000500), (gravityEvent, 1700000001000)]
        (initialApp Basic)) = PInf"
proof -
  define s1 where "s1 = handleMotion Basic hugeEvent 1700000000000 (initialApp Basic)"
  have n: "nonneg_num (filteredMagnitudeRef (initialApp Basic))"
    by (simp add: filtered_initialApp nonneg_GRAVITY)
  have s1: "s1 = (initialApp Basic)\<lparr>filteredMagnitudeRef := PInf\<rparr>"
    unfolding s1_def by (rule handleMotion_overflow[OF select_hugeEvent finiteAxes_hugeReading n])
  then show "handleMotion Basic hugeEvent 1700000000000 (initialApp Basic)
     = (initialApp Basic)\<lparr>filteredMagnitudeRef := PInf\<rparr>" by (simp add: s1_def)
  have 0: "\<not> stepDetected Basic hugeEvent 1700000000000 (initialApp Basic)"
    unfolding stepDetected_def s1_def[symmetric] s1 by simp
  have f1: "filteredMagnitudeRef s1 = PInf" and l1: "lastStepAtRef s1 = 0"
    by (simp_all add: s1 initialApp_def)
  define s2 where "s2 = handleMotion Basic gravityEvent 1700000000500 s1"
  have 1: "stepDetected Basic gravityEvent 1700000000500 s1"
    using handleMotion_stuck(2)[OF select_gravityEvent finiteAxes_gravityReading f1, of Basic 1700000000500]
    by (simp add: finite_magnitude_gravityReading l1)
  have f2: "filteredMagnitudeRef s2 = PInf"
    unfolding s2_def by (rule handleMotion_stuck(1)[OF select_gravityEvent finiteAxes_gravityReading f1])
  have l2: "lastStepAtRef s2 = 1700000000500"
    unfolding s2_def using 1 by (simp add: lastStepAtRef_handleMotion)
  have 2: "stepDetected Basic gravityEvent 1700000001000 s2"
    using handleMotion_stuck(2)[OF select_gravityEvent finiteAxes_gravityReading f2, of Basic 1700000001000]
    by (simp add: finite_magnitude_gravityReading l2)
  have f3: "filteredMagnitudeRef (handleMotion Basic gravityEvent 1700000001000 s2) = PInf"
    by (rule handleMotion_stuck(1)[OF select_gravityEvent finiteAxes_gravityReading f2])
  show "stepTimes Basic [(hugeEvent, 1700000000000), (gravityEvent, 1700000000500), (gravityEvent, 1700000001000)]
     (initialApp Basic) = [1700000000500, 1700000001000]"
    using 0 1 2 by (simp add: s1_def[symmetric] s2_def[symmetric])
  show "filteredMagnitudeRef
     (runSamples Basic [(hugeEvent, 1700000000000), (gravityEvent, 1700000000500), (gravityEvent, 1700000001000)]
        (initialApp Basic)) = PInf"
    using f3 by (simp add: runSamples_Cons runSamples_Nil s1_def s2_def)
qed

text \<open>
  Claim C7, as stated, fails: a reading out of range is neither clamped nor ignored. A
  single reading with the finite x axis \<open>2^600\<close> has magnitude \<^verbatim>\<open>Infinity\<close> (its square
  overflows) and sets the filter value to \<^verbatim>\<open>Infinity\<close>, where it stays; from then on the
  device lying still is counted as stepping at every sample more than 400 ms after the
  last one, whereas without that reading the same samples count no step.
\<close>

theorem C7_counterexample:
  "acc_x hugeReading = Some (Fin (2 ^ 600)) \<and> finiteAxes hugeReading \<and> finiteAxes gravityReading \<and>
   handleMotion Basic hugeEvent 1700000000000 (initialApp Basic)
     = (initialApp Basic)\<lparr>filteredMagnitudeRef := PInf\<rparr> \<and>
   stepTimes Basic [(hugeEvent, 1700000000000), (gravityEvent, 1700000000500), (gravityEvent, 1700000001000)]
     (initialApp Basic) = [1700000000500, 1700000001000] \<and>
   steps (runSamples Basic
            [(hugeEvent, 1700000000000), (gravityEvent, 1700000000500), (gravityEvent, 1700000001000)]
            (initialApp Basic)) = 2 \<and>
   filteredMagnitudeRef
     (runSamples Basic [(hugeEvent, 1700000000000), (gravityEvent, 1700000000500), (gravityEvent, 1700000001000)]
        (initialApp Basic)) = PInf \<and>
   stepTimes Basic [(gravityEvent, 1700000000500), (gravityEvent, 1700000001000)] (initialApp Basic) = []"
proof -
  have n: "steps (runSamples Basic
            [(hugeEvent, 1700000000000), (gravityEvent, 1700000000500), (gravityEvent, 1700000001000)]
            (initialApp Basic)) = 2"
    unfolding steps_runSamples huge_then_gravity(2) by (simp add: initialApp_def)
  show ?thesis
    using huge_then_gravity n finiteAxes_hugeReading(1) finiteAxes_gravityReading
      gravity_stream_quiet[OF filtered_initialApp, of Basic 1700000000500 1700000001000]
    by (simp add: hugeReading_def)
qed

text \<open>
  Claim C7, amended. Sample processing cannot fail: for every sample the handler
  completes without raising an error. But a reading out of range is neither clamped nor
  ignored. For readings whose axes are null or finite numbers: the magnitude and the
  filter value, which starts at the gravity constant, are never negative and never NaN,
  but they can be \<^verbatim>\<open>Infinity\<close>; a reading with an axis of absolute value \<open>2^512\<close> or more
  has magnitude \<^verbatim>\<open>Infinity\<close> and sets the filter value to \<^verbatim>\<open>Infinity\<close>, changing nothing
  else (no step is counted for it); and once the filter value is \<^verbatim>\<open>Infinity\<close> it stays so
  under every reading, and a reading counts as a step exactly when its magnitude is
  finite and more than 400 ms have passed since the last step.
\<close>

theorem C7_bad_reading_enters_filter:
  "handleMotion_checked v ev now s = Inr (handleMotion v ev now s) \<and>
   nonneg_num (filteredMagnitudeRef (initialApp v)) \<and>
   (selectAcceleration ev = Some a \<and> finiteAxes a \<and> nonneg_num (filteredMagnitudeRef s) \<longrightarrow>
      nonneg_num (magnitude a) \<and> nonneg_num (filteredMagnitudeRef (handleMotion v ev now s))) \<and>
   (selectAcceleration ev = Some a \<and> finiteAxes a \<and> axisBeyond (2 ^ 512) a \<and>
    nonneg_num (filteredMagnitudeRef s) \<longrightarrow>
      magnitude a = PInf \<and>
      handleMotion v ev now s = s\<lparr>filteredMagnitudeRef := PInf\<rparr>) \<and>
   (selectAcceleration ev = Some a \<and> finiteAxes a \<and> filteredMagnitudeRef s = PInf \<longrightarrow>
      filteredMagnitudeRef (handleMotion v ev now s) = PInf \<and>
      (stepDetected v ev now s \<longleftrightarrow> finite_num (magnitude a) \<and> now - lastStepAtRef s > 400))"
proof (intro conjI impI)
  show "handleMotion_checked v ev now s = Inr (handleMotion v ev now s)"
    by (rule handleMotion_checked_ok)
next
  show "nonneg_num (filteredMagnitudeRef (initialApp v))"
    by (simp add: filtered_initialApp nonneg_GRAVITY)
next
  assume h: "selectAcceleration ev = Some a \<and> finiteAxes a \<and> nonneg_num (filteredMagnitudeRef s)"
  then have a: "selectAcceleration ev = Some a" and fa: "finiteAxes a"
    and nn: "nonneg_num (filteredMagnitudeRef s)"
    by blast+
  show "nonneg_num (magnitude a)" by (rule magnitude_nonneg[OF fa])
  show "nonneg_num (filteredMagnitudeRef (handleMotion v ev now s))"
    by (rule handleMotion_nonneg[OF a fa nn])
next
  assume h: "selectAcceleration ev = Some a \<and> finiteAxes a \<and> axisBeyond (2 ^ 512) a \<and>
    nonneg_num (filteredMagnitudeRef s)"
  then have a: "selectAcceleration ev = Some a" and fa: "finiteAxes a"
    and ab: "axisBeyond (2 ^ 512) a" and nn: "nonneg_num (filteredMagnitudeRef s)"
    by blast+
  show "magnitude a = PInf" by (rule magnitude_overflow[OF fa ab])
  show "handleMotion v ev now s = s\<lparr>filteredMagnitudeRef := PInf\<rparr>"
    by (rule handleMotion_overflow[OF a fa ab nn])
next
  assume h: "selectAcceleration ev = Some a \<and> finiteAxes a \<and> filteredMagnitudeRef s = PInf"
  then have a: "selectAcceleration ev = Some a" and fa: "finiteAxes a"
    and p: "filteredMagnitudeRef s = PInf"
    by blast+
  show "filteredMagnitudeRef (handleMotion v ev now s) = PInf"
    by (rule handleMotion_stuck(1)[OF a fa p])
  show "stepDetected v ev now s \<longleftrightarrow> finite_num (magnitude a) \<and> now - lastStepAtRef s > 400"
    by (rule handleMotion_stuck(2)[OF a fa p])
qed

theorem C7_witness:
  "handleMotion_checked Chat emptyEvent 1700000000000 (initialApp Chat) = Inr (initialApp Chat) \<and>
   selectAcceleration hugeEvent = Some hugeReading \<and> finiteAxes hugeReading \<and>
   axisBeyond (2 ^ 512) hugeReading \<and> nonneg_num (filteredMagnitudeRef (initialApp Chat)) \<and>
   magnitude hugeReading = PInf \<and>
   handleMotion Chat hugeEvent 1700000000000 (initialApp Chat)
     = (initialApp Chat)\<lparr>filteredMagnitudeRef := PInf\<rparr> \<and>
   selectAcceleration gravityEvent = Some gravityReading \<and> finiteAxes gravityReading \<and>
   filteredMagnitudeRef ((initialApp Chat)\<lparr>filteredMagnitudeRef := PInf\<rparr>) = PInf \<and>
   stepDetected Chat gravityEvent 1700000000500 ((initialApp Chat)\<lparr>filteredMagnitudeRef := PInf\<rparr>) \<and>
   filteredMagnitudeRef
     (handleMotion Chat gravityEvent 1700000000500 ((initialApp Chat)\<lparr>filteredMagnitudeRef := PInf\<rparr>))
     = PInf \<and>
   nonneg_num (filteredMagnitudeRef (handleMotion Chat gravityEvent 1700000000000 (initialApp Chat)))"
proof -
  have n: "nonneg_num (filteredMagnitudeRef (initialApp Chat))"
    by (simp add: filtered_initialApp nonneg_GRAVITY)
  have e: "handleMotion Chat emptyEvent 1700000000000 (initialApp Chat) = initialApp Chat"
    by (rule handleMotion_no_reading[OF select_emptyEvent])
  have p: "filteredMagnitudeRef ((initialApp Chat)\<lparr>filteredMagnitudeRef := PInf\<rparr>) = PInf" by simp
  have l: "1700000000500 - lastStepAtRef ((initialApp Chat)\<lparr>filteredMagnitudeRef := PInf\<rparr>) > 400"
    by (simp add: initialApp_def)
  from C7_bad_reading_enters_filter[where v = Chat and ev = emptyEvent and now = 1700000000000
      and s = "initialApp Chat"] e
  have 1: "handleMotion_checked Chat emptyEvent 1700000000000 (initialApp Chat) = Inr (initialApp Chat)"
    by simp
  from C7_bad_reading_enters_filter[where v = Chat and ev = hugeEvent and now = 1700000000000
      and s = "initialApp Chat" and a = hugeReading]
    select_hugeEvent finiteAxes_hugeReading n
  have 2: "magnitude hugeReading = PInf"
    and 3: "handleMotion Chat hugeEvent 1700000000000 (initialApp Chat)
     = (initialApp Chat)\<lparr>filteredMagnitudeRef := PInf\<rparr>"
    by blast+
  from C7_bad_reading_enters_filter[where v = Chat and ev = gravityEvent and now = 1700000000500
      and s = "(initialApp Chat)\<lparr>filteredMagnitudeRef := PInf\<rparr>" and a = gravityReading]
    select_gravityEvent finiteAxes_gravityReading p l finite_magnitude_gravityReading
  have 4: "stepDetected Chat gravityEvent 1700000000500 ((initialApp Chat)\<lparr>filteredMagnitudeRef := PInf\<rparr>)"
    and 5: "filteredMagnitudeRef
     (handleMotion Chat gravityEvent 1700000000500 ((initialApp Chat)\<lparr>filteredMagnitudeRef := PInf\<rparr>))
     = PInf"
    by blast+
  from C7_bad_reading_enters_filter[where v = Chat and ev = gravityEvent and now = 1700000000000
      and s = "initialApp Chat" and a = gravityReading]
    select_gravityEvent finiteAxes_gravityReading n
  have 6: "nonneg_num (filteredMagnitudeRef (handleMotion Chat gravityEvent 1700000000000 (initialApp Chat)))"
    by blast
  from 1 2 3 4 5 6 n p select_hugeEvent select_gravityEvent finiteAxes_hugeReading finiteAxes_gravityReading
  show ?thesis by blast
qed

section \<open>The lifecycle\<close>

lemmas handler_defs =
  issueRequest_def beginTracking_def startTracking_def startTracking_resume_def autoStartEffect_def
  autoStart_def mountEffect_def mountEffect_resume_def interactionEffect_def removeListeners_def
  handleFirstInteraction_def handleFirstInteraction_resume_def handleRequestPermission_def
  handleRequestPermission_resume_def dropRequest_def settle_def deliverMotion_def

text \<open>\<^verbatim>\<open>handleMotion\<close> touches the filter value, the time of the last step and the counter only.\<close>

lemma handleMotion_frame:
  "isTracking (handleMotion v ev now s) = isTracking s"
  "permissionState (handleMotion v ev now s) = permissionState s"
  "error (handleMotion v ev now s) = error s"
  "hasAutoStartedRef (handleMotion v ev now s) = hasAutoStartedRef s"
  "permissionRequestedRef (handleMotion v ev now s) = permissionRequestedRef s"
  "pendingRequests (handleMotion v ev now s) = pendingRequests s"
  "timeouts (handleMotion v ev now s) = timeouts s"
  "touchstartListener (handleMotion v ev now s) = touchstartListener s"
  "clickListener (handleMotion v ev now s) = clickListener s"
  "requestsIssued (handleMotion v ev now s) = requestsIssued s"
  "startCount (handleMotion v ev now s) = startCount s"
  by (simp_all add: handleMotion_def processReading_def Let_def split: option.splits)

lemma resume_cases:
  "sameTracking s (resume who c r s) \<or> freshStart s (resume who c r s)"
  by (cases who; cases r) (simp_all add: handler_defs sameTracking_def freshStart_def)

lemma dropRequest_frame:
  "sameTracking s (dropRequest n s)"
  "sameTracking (dropRequest n s) s' \<longleftrightarrow> sameTracking s s'"
  "freshStart (dropRequest n s) s' \<longleftrightarrow> freshStart s s'"
  by (simp_all add: dropRequest_def sameTracking_def freshStart_def)

lemma settle_cases: "sameTracking s (settle n r s) \<or> freshStart s (settle n r s)"
proof (cases "n < length (pendingRequests s)")
  case True
  then show ?thesis
    using resume_cases[of "dropRequest n s" "fst (pendingRequests s ! n)" "snd (pendingRequests s ! n)" r]
    by (simp add: settle_def dropRequest_frame)
next
  case False
  then show ?thesis by (simp add: settle_def sameTracking_def)
qed

lemma basic_step_cases:
  "sameTracking s (basic_step p e s) \<or> freshStart s (basic_step p e s) \<or>
   (\<exists>ev now. e = DeviceMotion ev now \<and> isTracking s \<and> basic_step p e s = handleMotion Basic ev now s)"
proof (cases e)
  case (PromiseSettles n r)
  then show ?thesis using settle_cases[of s n r] by auto
qed (simp_all add: sameTracking_def freshStart_def autoStartEffect_def startTracking_def
       issueRequest_def beginTracking_def deliverMotion_def Let_def)

lemma handleFirstInteraction_same: "sameTracking s (handleFirstInteraction p c s)"
  by (simp add: handleFirstInteraction_def issueRequest_def removeListeners_def sameTracking_def)

lemma chat_step_cases:
  "sameTracking s (chat_step p e s) \<or> freshStart s (chat_step p e s) \<or>
   (\<exists>ev now. e = DeviceMotion ev now \<and> isTracking s \<and> chat_step p e s = handleMotion Chat ev now s)"
proof (cases e)
  case (PromiseSettles n r)
  then show ?thesis using settle_cases[of s n r] by auto
next
  case Touchstart
  then show ?thesis
    using handleFirstInteraction_same[of "s\<lparr>touchstartListener := None\<rparr>" p]
    by (auto simp: sameTracking_def split: option.splits)
next
  case Click
  then show ?thesis
    using handleFirstInteraction_same[of "s\<lparr>clickListener := None\<rparr>" p]
    by (auto simp: sameTracking_def split: option.splits)
qed (simp_all add: sameTracking_def freshStart_def mountEffect_def interactionEffect_def
       handleRequestPermission_def autoStart_def
       issueRequest_def beginTracking_def deliverMotion_def Let_def)

lemma app_step_cases:
  "sameTracking s (app_step v p e s) \<or> freshStart s (app_step v p e s) \<or>
   (\<exists>ev now. e = DeviceMotion ev now \<and> isTracking s \<and> app_step v p e s = handleMotion v ev now s)"
  using basic_step_cases[of s p e] chat_step_cases[of s p e] by (cases v) simp_all


lemma chatInv_initial: "chatInv (initialApp Chat)"
  by (simp add: chatInv_def initialApp_def)

lemma basicInv_initial: "basicInv (initialApp Basic)"
  by (simp add: basicInv_def initialApp_def)

lemma chatInv_dropRequest: "chatInv s \<Longrightarrow> chatInv (dropRequest n s)"
  by (auto simp: chatInv_def dropRequest_def list_all_iff dest: in_set_takeD in_set_dropD)

lemma chatInv_nth:
  "chatInv s \<Longrightarrow> n < length (pendingRequests s) \<Longrightarrow>
   fst (pendingRequests s ! n) \<noteq> ByStartTracking \<and> (snd (pendingRequests s ! n) \<longrightarrow> isTracking s)"
proof -
  assume inv: "chatInv s" and n: "n < length (pendingRequests s)"
  from n have "pendingRequests s ! n \<in> set (pendingRequests s)" by (rule nth_mem)
  with inv show ?thesis
    by (cases "pendingRequests s ! n") (auto simp: chatInv_def list_all_iff)
qed

lemma chatInv_autoStart:
  "chatInv s \<Longrightarrow> (c \<longrightarrow> isTracking s) \<Longrightarrow> chatInv (autoStart c (s\<lparr>permissionState := g\<rparr>))"
  by (auto simp: chatInv_def autoStart_def beginTracking_def list_all_iff)

lemma chatInv_resume:
  assumes "chatInv s" "who \<noteq> ByStartTracking" "c \<longrightarrow> isTracking s"
  shows "chatInv (resume who c r s)"
proof (cases r)
  case Rejected
  with assms show ?thesis
    by (cases who) (auto simp: chatInv_def mountEffect_resume_def handleFirstInteraction_resume_def
          handleRequestPermission_resume_def removeListeners_def)
next
  case (Resolved status)
  show ?thesis
  proof (cases "status = ''granted''")
    case True
    have "chatInv (autoStart c (s\<lparr>permissionState := granted\<rparr>))"
      using assms(1,3) by (rule chatInv_autoStart)
    moreover have "chatInv (removeListeners (autoStart c (s\<lparr>permissionState := granted\<rparr>)))"
      using calculation by (auto simp: chatInv_def removeListeners_def)
    ultimately show ?thesis using assms(2) Resolved True
      by (cases who) (simp_all add: mountEffect_resume_def handleFirstInteraction_resume_def
            handleRequestPermission_resume_def)
  next
    case False
    with assms Resolved show ?thesis
      by (cases who) (auto simp: chatInv_def mountEffect_resume_def handleFirstInteraction_resume_def
            handleRequestPermission_resume_def removeListeners_def)
  qed
qed

lemma chatInv_settle: "chatInv s \<Longrightarrow> chatInv (settle n r s)"
proof (cases "n < length (pendingRequests s)")
  case True
  assume inv: "chatInv s"
  from chatInv_nth[OF inv True]
  have "chatInv (resume (fst (pendingRequests s ! n)) (snd (pendingRequests s ! n)) r (dropRequest n s))"
    by (intro chatInv_resume chatInv_dropRequest inv) (simp_all add: dropRequest_def)
  with True show ?thesis by (simp add: settle_def)
next
  case False
  then show "chatInv s \<Longrightarrow> chatInv (settle n r s)" by (simp add: settle_def)
qed

lemma chatInv_handleFirstInteraction:
  "chatInv s \<Longrightarrow> c \<longrightarrow> isTracking s \<Longrightarrow> chatInv (handleFirstInteraction p c s)"
  by (auto simp: chatInv_def handleFirstInteraction_def issueRequest_def removeListeners_def)

lemma chatInv_step: "chatInv s \<Longrightarrow> chatInv (chat_step p e s)"
proof (cases e)
  case (PromiseSettles n r)
  then show "chatInv s \<Longrightarrow> ?thesis" by (simp add: chatInv_settle)
next
  case MountEffect
  assume inv: "chatInv s"
  have "chatInv (s\<lparr>permissionRequestedRef := True\<rparr>)" using inv by (auto simp: chatInv_def)
  from chatInv_autoStart[OF this, of "isTracking s" granted] inv MountEffect
  show ?thesis by (auto simp: mountEffect_def issueRequest_def chatInv_def)
next
  case ButtonClick
  assume inv: "chatInv s"
  from chatInv_autoStart[OF inv, of "isTracking s" granted] inv ButtonClick
  show ?thesis by (auto simp: handleRequestPermission_def issueRequest_def chatInv_def)
next
  case Touchstart
  assume inv: "chatInv s"
  show ?thesis
  proof (cases "touchstartListener s")
    case None
    with inv Touchstart show ?thesis by simp
  next
    case (Some c)
    have "chatInv (s\<lparr>touchstartListener := None\<rparr>)" using inv by (auto simp: chatInv_def)
    moreover have "c \<longrightarrow> isTracking (s\<lparr>touchstartListener := None\<rparr>)"
      using inv Some by (auto simp: chatInv_def)
    ultimately show ?thesis using Touchstart Some by (simp add: chatInv_handleFirstInteraction)
  qed
next
  case Click
  assume inv: "chatInv s"
  show ?thesis
  proof (cases "clickListener s")
    case None
    with inv Click show ?thesis by simp
  next
    case (Some c)
    have "chatInv (s\<lparr>clickListener := None\<rparr>)" using inv by (auto simp: chatInv_def)
    moreover have "c \<longrightarrow> isTracking (s\<lparr>clickListener := None\<rparr>)"
      using inv Some by (auto simp: chatInv_def)
    ultimately show ?thesis using Click Some by (simp add: chatInv_handleFirstInteraction)
  qed
next
  case (DeviceMotion ev now)
  then show "chatInv s \<Longrightarrow> ?thesis"
    by (auto simp: chatInv_def deliverMotion_def handleMotion_frame)
qed (auto simp: chatInv_def interactionEffect_def)


lemma basicInv_settle: "basicInv s \<Longrightarrow> basicInv (settle n r s)"
proof (cases "n < length (pendingRequests s)")
  case False
  then show "basicInv s \<Longrightarrow> basicInv (settle n r s)" by (simp add: settle_def)
next
  case True
  assume inv: "basicInv s"
  from True have "pendingRequests s ! n \<in> set (pendingRequests s)" by (rule nth_mem)
  with inv have who: "fst (pendingRequests s ! n) = ByStartTracking"
    by (cases "pendingRequests s ! n") (auto simp: basicInv_def list_all_iff)
  have len: "length (pendingRequests (dropRequest n s)) + 1 = length (pendingRequests s)"
    using True by (simp add: dropRequest_def min_def)
  have all: "list_all (\<lambda>(who, c). who = ByStartTracking) (pendingRequests (dropRequest n s))"
    using inv by (auto simp: basicInv_def dropRequest_def list_all_iff dest: in_set_takeD in_set_dropD)
  have started: "hasAutoStartedRef s" "startCount s = 0" "timeouts s = 0" "\<not> isTracking s"
       "length (pendingRequests s) = 1"
    using inv True by (auto simp: basicInv_def split: if_splits)
  with len have "pendingRequests (dropRequest n s) = []" by simp
  with started show ?thesis
    using True who
    by (cases r) (auto simp: settle_def startTracking_resume_def beginTracking_def basicInv_def
          dropRequest_def)
qed

lemma basicInv_step: "basicInv s \<Longrightarrow> basicInv (basic_step p e s)"
proof (cases e)
  case (PromiseSettles n r)
  then show "basicInv s \<Longrightarrow> ?thesis" by (simp add: basicInv_settle)
next
  case (DeviceMotion ev now)
  then show "basicInv s \<Longrightarrow> ?thesis"
    by (auto simp: basicInv_def deliverMotion_def handleMotion_frame split: if_splits)
next
  case TimeoutFires
  then show "basicInv s \<Longrightarrow> ?thesis"
    by (auto simp: basicInv_def startTracking_def issueRequest_def beginTracking_def Let_def
          split: if_splits)
next
  case AutoStartEffect
  then show "basicInv s \<Longrightarrow> ?thesis"
    by (auto simp: basicInv_def autoStartEffect_def split: if_splits)
qed simp_all

lemma appInv_initial: "appInv v (initialApp v)"
  by (cases v) (simp_all add: basicInv_initial chatInv_initial)

lemma appInv_step: "appInv v s \<Longrightarrow> appInv v (app_step v p e s)"
  by (cases v) (simp_all add: basicInv_step chatInv_step)

lemma appInv_run: "appInv v s \<Longrightarrow> appInv v (run v p es s)"
  by (induction es arbitrary: s) (simp_all add: appInv_step)

lemma appInv_reachable: "appInv v (run v p es (initialApp v))"
  by (rule appInv_run[OF appInv_initial])


lemma appInv_startCount:
  "appInv v s \<Longrightarrow> startCount s \<le> 1 \<and> (isTracking s \<longleftrightarrow> startCount s = 1)"
  by (cases v) (auto simp: basicInv_def chatInv_def split: if_splits)

lemma trigger_after_start:
  assumes inv: "appInv v s" and started: "startCount s = 1"
    and trigger: "\<forall>ev now. e \<noteq> DeviceMotion ev now"
  shows "sameTracking s (app_step v p e s)"
proof -
  from appInv_startCount[OF appInv_step[OF inv, of p e]]
  have "startCount (app_step v p e s) \<le> 1" by simp
  with started have "\<not> freshStart s (app_step v p e s)" by (simp add: freshStart_def)
  with app_step_cases[of s v p e] trigger show ?thesis by blast
qed

lemma granted_starts:
  assumes inv: "appInv v s" and fresh: "startCount s = 0" and n: "n < length (pendingRequests s)"
  shows "freshStart s (app_step v p (PromiseSettles n (Resolved ''granted'')) s) \<and>
         permissionState (app_step v p (PromiseSettles n (Resolved ''granted'')) s) = granted"
proof (cases v)
  case Basic
  from n have "pendingRequests s ! n \<in> set (pendingRequests s)" by (rule nth_mem)
  with inv Basic have who: "fst (pendingRequests s ! n) = ByStartTracking"
    by (cases "pendingRequests s ! n") (auto simp: basicInv_def list_all_iff)
  with Basic n show ?thesis
    by (simp add: settle_def startTracking_resume_def beginTracking_def dropRequest_def
          freshStart_def)
next
  case Chat
  with inv have ci: "chatInv s" by simp
  from chatInv_nth[OF ci n] ci fresh
  have who: "fst (pendingRequests s ! n) \<noteq> ByStartTracking" and c: "\<not> snd (pendingRequests s ! n)"
    and h: "\<not> hasAutoStartedRef s"
    by (auto simp: chatInv_def split: if_splits)
  from who c h Chat n show ?thesis
    by (cases "fst (pendingRequests s ! n)")
       (simp_all add: settle_def mountEffect_resume_def handleFirstInteraction_resume_def
          handleRequestPermission_resume_def autoStart_def beginTracking_def removeListeners_def
          dropRequest_def freshStart_def)
qed

lemma startCount_step: "startCount s \<le> startCount (app_step v p e s)"
  using app_step_cases[of s v p e]
  by (auto simp: sameTracking_def freshStart_def handleMotion_frame)

lemma startCount_run: "startCount s \<le> startCount (run v p es s)"
proof (induction es arbitrary: s)
  case Nil
  then show ?case by simp
next
  case (Cons e es)
  from startCount_step[of s v p e] Cons.IH[of "app_step v p e s"] show ?case by simp
qed

lemma steps_step_no_start:
  assumes "startCount (app_step v p e s) = startCount s"
  shows "steps (app_step v p e s) = steps s \<or>
         steps (app_step v p e s) = steps s + stepIncrement v \<and>
         (\<exists>ev now. e = DeviceMotion ev now \<and> isTracking s \<and> stepDetected v ev now s)"
  using app_step_cases[of s v p e] assms
  by (auto simp: sameTracking_def freshStart_def steps_handleMotion split: if_splits)

lemma steps_step_mono:
  "startCount (app_step v p e s) = startCount s \<Longrightarrow> steps s \<le> steps (app_step v p e s)"
  using steps_step_no_start[of v p e s] stepIncrement_pos[of v] by auto

lemma steps_run_mono:
  "startCount (run v p es s) = startCount s \<Longrightarrow> steps s \<le> steps (run v p es s)"
proof (induction es arbitrary: s)
  case Nil
  then show ?case by simp
next
  case (Cons e es)
  from startCount_step[of s v p e] startCount_run[of "app_step v p e s" v p es] Cons.prems
  have a: "startCount (app_step v p e s) = startCount s"
    and b: "startCount (run v p es (app_step v p e s)) = startCount (app_step v p e s)"
    by simp_all
  from steps_step_mono[OF a] Cons.IH[OF b] show ?case by simp
qed

lemma detection_depends_on_filter:
  assumes "filteredMagnitudeRef s1 = filteredMagnitudeRef s2" "lastStepAtRef s1 = lastStepAtRef s2"
  shows "stepDetected v ev now s1 = stepDetected v ev now s2 \<and>
         filteredMagnitudeRef (handleMotion v ev now s1) = filteredMagnitudeRef (handleMotion v ev now s2) \<and>
         lastStepAtRef (handleMotion v ev now s1) = lastStepAtRef (handleMotion v ev now s2)"
proof (cases "selectAcceleration ev")
  case None
  with assms show ?thesis by (simp add: stepDetected_no_reading handleMotion_no_reading)
next
  case (Some a)
  with assms show ?thesis
    by (simp add: stepDetected_iff lastStepAtRef_handleMotion filtered_handleMotion_reading
          deviation_def)
qed

lemma stream_depends_on_filter:
  "filteredMagnitudeRef s1 = filteredMagnitudeRef s2 \<Longrightarrow> lastStepAtRef s1 = lastStepAtRef s2 \<Longrightarrow>
   stepTimes v samples s1 = stepTimes v samples s2 \<and>
   filteredMagnitudeRef (runSamples v samples s1) = filteredMagnitudeRef (runSamples v samples s2) \<and>
   lastStepAtRef (runSamples v samples s1) = lastStepAtRef (runSamples v samples s2)"
proof (induction samples arbitrary: s1 s2)
  case Nil
  then show ?case by (simp add: runSamples_Nil)
next
  case (Cons sample samples)
  obtain ev now where sample: "sample = (ev, now)" by (cases sample)
  from detection_depends_on_filter[OF Cons.prems, of v ev now]
  have d: "stepDetected v ev now s1 = stepDetected v ev now s2"
    and f: "filteredMagnitudeRef (handleMotion v ev now s1) = filteredMagnitudeRef (handleMotion v ev now s2)"
    and l: "lastStepAtRef (handleMotion v ev now s1) = lastStepAtRef (handleMotion v ev now s2)"
    by simp_all
  from Cons.IH[OF f l] d show ?case by (simp add: sample runSamples_Cons)
qed

lemma tracking_begins_fresh:
  assumes "\<not> isTracking s" "isTracking (app_step v p e s)"
  shows "freshStart s (app_step v p e s)"
  using app_step_cases[of s v p e] assms by (auto simp: sameTracking_def handleMotion_frame)

lemma idle_counter_step:
  "isTracking s \<or> steps s = k \<Longrightarrow> isTracking (app_step v p e s) \<or> steps (app_step v p e s) = k"
  using app_step_cases[of s v p e] by (auto simp: sameTracking_def freshStart_def handleMotion_frame)

lemma idle_counter_run:
  "isTracking s \<or> steps s = k \<Longrightarrow> isTracking (run v p es s) \<or> steps (run v p es s) = k"
proof (induction es arbitrary: s)
  case Nil
  then show ?case by simp
next
  case (Cons e es)
  from Cons.IH[OF idle_counter_step[OF Cons.prems, of v p e]] show ?case by simp
qed

lemma isTrigger_iff: "isTrigger e \<longleftrightarrow> (\<forall>ev now. e \<noteq> DeviceMotion ev now)"
  by (cases e) simp_all

lemmas run_defs =
  initialApp_def gatedSensor_def openSensor_def noSensor_def handler_defs

subsection \<open>Starting once\<close>

lemma chat_not_started:
  "chatInv s \<Longrightarrow> startCount s = 0 \<Longrightarrow> \<not> hasAutoStartedRef s \<and> \<not> isTracking s"
  by (auto simp: chatInv_def split: if_splits)

lemma basic_one_call:
  "basicInv s \<Longrightarrow> timeouts s + length (pendingRequests s) + startCount s \<le> 1"
  by (auto simp: basicInv_def split: if_splits)

lemma startTracking_open:
  "motionAvailable p \<Longrightarrow> \<not> hasRequestPermission p \<Longrightarrow> 0 < timeouts s \<Longrightarrow>
   freshStart s (basic_step p TimeoutFires s) \<and> permissionState (basic_step p TimeoutFires s) = granted"
  by (simp add: startTracking_def beginTracking_def freshStart_def)

lemma startTracking_gated:
  "motionAvailable p \<Longrightarrow> hasRequestPermission p \<Longrightarrow> 0 < timeouts s \<Longrightarrow>
   pendingRequests (basic_step p TimeoutFires s) = pendingRequests s @ [(ByStartTracking, isTracking s)] \<and>
   permissionState (basic_step p TimeoutFires s) = pending \<and> sameTracking s (basic_step p TimeoutFires s)"
  by (simp add: startTracking_def issueRequest_def sameTracking_def)

lemma autoStartEffect_schedules:
  "\<not> hasAutoStartedRef s \<Longrightarrow> motionAvailable p \<Longrightarrow> permissionState s = idle \<Longrightarrow> \<not> isTracking s \<Longrightarrow>
   timeouts (basic_step p AutoStartEffect s) = timeouts s + 1 \<and>
   hasAutoStartedRef (basic_step p AutoStartEffect s)"
  by (simp add: autoStartEffect_def)

lemma mountEffect_open:
  "motionAvailable p \<Longrightarrow> \<not> hasRequestPermission p \<Longrightarrow> \<not> permissionRequestedRef s \<Longrightarrow>
   \<not> hasAutoStartedRef s \<Longrightarrow> \<not> isTracking s \<Longrightarrow>
   freshStart s (chat_step p MountEffect s) \<and> permissionState (chat_step p MountEffect s) = granted"
  by (simp add: mountEffect_def autoStart_def beginTracking_def freshStart_def)

lemma mountEffect_gated:
  "motionAvailable p \<Longrightarrow> hasRequestPermission p \<Longrightarrow> \<not> permissionRequestedRef s \<Longrightarrow>
   pendingRequests (chat_step p MountEffect s) = pendingRequests s @ [(ByMountEffect, isTracking s)] \<and>
   permissionState (chat_step p MountEffect s) = permissionState s \<and>
   sameTracking s (chat_step p MountEffect s)"
  by (simp add: mountEffect_def issueRequest_def sameTracking_def)

lemma button_open:
  "motionAvailable p \<Longrightarrow> \<not> hasRequestPermission p \<Longrightarrow> \<not> hasAutoStartedRef s \<Longrightarrow> \<not> isTracking s \<Longrightarrow>
   freshStart s (chat_step p ButtonClick s) \<and> permissionState (chat_step p ButtonClick s) = granted"
  by (simp add: handleRequestPermission_def autoStart_def beginTracking_def freshStart_def)

lemma button_gated:
  "motionAvailable p \<Longrightarrow> hasRequestPermission p \<Longrightarrow>
   pendingRequests (chat_step p ButtonClick s) = pendingRequests s @ [(ByRequestPermission, isTracking s)] \<and>
   permissionState (chat_step p ButtonClick s) = pending \<and> sameTracking s (chat_step p ButtonClick s)"
  by (simp add: handleRequestPermission_def issueRequest_def sameTracking_def)

lemma gesture_gated:
  assumes "hasRequestPermission p" "\<not> permissionRequestedRef s"
  shows "clickListener s = Some c \<Longrightarrow>
           pendingRequests (chat_step p Click s) = pendingRequests s @ [(ByFirstInteraction, c)] \<and>
           permissionState (chat_step p Click s) = pending"
    and "touchstartListener s = Some c \<Longrightarrow>
           pendingRequests (chat_step p Touchstart s) = pendingRequests s @ [(ByFirstInteraction, c)] \<and>
           permissionState (chat_step p Touchstart s) = pending"
  using assms by (simp_all add: handleFirstInteraction_def issueRequest_def)

text \<open>
  Claim C2. In every state the component reaches from its initial state, in either
  variant and under any order of effects, timeouts, gestures, button clicks, settled
  promises and samples, the block that starts tracking has run at most once, and
  tracking is active exactly when it has run. Once it has run, every trigger (any event
  but a motion sample, the button's handler included) leaves the filter value, the time
  of the last step, the counter and the tracking flag as they are. While it has not run,
  every trigger that obtains granted runs it (filter value at the gravity constant, last
  step 0, counter 0, tracking active, permission granted): a pending request that
  resolves to granted, and, where the browser has no \<^verbatim>\<open>requestPermission\<close>, the scheduled
  call of \<^verbatim>\<open>startTracking\<close>, the mount effect and the button. Where the browser has
  \<^verbatim>\<open>requestPermission\<close>, these triggers and the gesture listeners issue the request
  instead and start nothing yet. In the basic variant \<^verbatim>\<open>startTracking\<close> has no guard of
  its own; it is called from the auto-start effect's timeout alone, which
  \<^verbatim>\<open>hasAutoStartedRef\<close> lets through once, so that at most one scheduled call, pending
  request or start exists in a run.
\<close>

theorem C2_tracking_starts_at_most_once:
  assumes "s = run v p es (initialApp v)"
  shows "startCount s \<le> 1 \<and> (isTracking s \<longleftrightarrow> startCount s = 1) \<and>
    (startCount s = 1 \<and> isTrigger e \<longrightarrow>
       filteredMagnitudeRef (app_step v p e s) = filteredMagnitudeRef s \<and>
       lastStepAtRef (app_step v p e s) = lastStepAtRef s \<and>
       steps (app_step v p e s) = steps s \<and>
       isTracking (app_step v p e s) \<and>
       startCount (app_step v p e s) = 1) \<and>
    (startCount s = 0 \<and> n < length (pendingRequests s) \<longrightarrow>
       startCount (app_step v p (PromiseSettles n (Resolved ''granted'')) s) = 1 \<and>
       isTracking (app_step v p (PromiseSettles n (Resolved ''granted'')) s) \<and>
       steps (app_step v p (PromiseSettles n (Resolved ''granted'')) s) = 0 \<and>
       filteredMagnitudeRef (app_step v p (PromiseSettles n (Resolved ''granted'')) s) = GRAVITY \<and>
       lastStepAtRef (app_step v p (PromiseSettles n (Resolved ''granted'')) s) = 0 \<and>
       permissionState (app_step v p (PromiseSettles n (Resolved ''granted'')) s) = granted) \<and>
    (v = Basic \<longrightarrow> timeouts s + length (pendingRequests s) + startCount s \<le> 1) \<and>
    (v = Basic \<and> \<not> hasAutoStartedRef s \<and> motionAvailable p \<and> permissionState s = idle \<and>
     \<not> isTracking s \<longrightarrow>
       timeouts (app_step v p AutoStartEffect s) = timeouts s + 1 \<and>
       hasAutoStartedRef (app_step v p AutoStartEffect s)) \<and>
    (v = Basic \<and> 0 < timeouts s \<and> motionAvailable p \<and> \<not> hasRequestPermission p \<longrightarrow>
       freshStart s (app_step v p TimeoutFires s) \<and> startCount (app_step v p TimeoutFires s) = 1 \<and>
       permissionState (app_step v p TimeoutFires s) = granted) \<and>
    (v = Basic \<and> 0 < timeouts s \<and> motionAvailable p \<and> hasRequestPermission p \<longrightarrow>
       pendingRequests (app_step v p TimeoutFires s) = [(ByStartTracking, False)] \<and>
       permissionState (app_step v p TimeoutFires s) = pending \<and>
       sameTracking s (app_step v p TimeoutFires s)) \<and>
    (v = Chat \<and> startCount s = 0 \<and> motionAvailable p \<and> \<not> hasRequestPermission p \<and>
     \<not> permissionRequestedRef s \<longrightarrow>
       freshStart s (app_step v p MountEffect s) \<and> startCount (app_step v p MountEffect s) = 1 \<and>
       permissionState (app_step v p MountEffect s) = granted) \<and>
    (v = Chat \<and> startCount s = 0 \<and> motionAvailable p \<and> \<not> hasRequestPermission p \<longrightarrow>
       freshStart s (app_step v p ButtonClick s) \<and> startCount (app_step v p ButtonClick s) = 1 \<and>
       permissionState (app_step v p ButtonClick s) = granted) \<and>
    (v = Chat \<and> motionAvailable p \<and> hasRequestPermission p \<and> \<not> permissionRequestedRef s \<longrightarrow>
       pendingRequests (app_step v p MountEffect s) = pendingRequests s @ [(ByMountEffect, isTracking s)] \<and>
       sameTracking s (app_step v p MountEffect s)) \<and>
    (v = Chat \<and> motionAvailable p \<and> hasRequestPermission p \<longrightarrow>
       pendingRequests (app_step v p ButtonClick s)
         = pendingRequests s @ [(ByRequestPermission, isTracking s)] \<and>
       permissionState (app_step v p ButtonClick s) = pending \<and>
       sameTracking s (app_step v p ButtonClick s)) \<and>
    (v = Chat \<and> hasRequestPermission p \<and> \<not> permissionRequestedRef s \<and> clickListener s = Some c \<longrightarrow>
       pendingRequests (app_step v p Click s) = pendingRequests s @ [(ByFirstInteraction, c)] \<and>
       permissionState (app_step v p Click s) = pending) \<and>
    (v = Chat \<and> hasRequestPermission p \<and> \<not> permissionRequestedRef s \<and> touchstartListener s = Some c \<longrightarrow>
       pendingRequests (app_step v p Touchstart s) = pendingRequests s @ [(ByFirstInteraction, c)] \<and>
       permissionState (app_step v p Touchstart s) = pending)"
proof -
  have inv: "appInv v s" unfolding assms by (rule appInv_reachable)
  note sc = appInv_startCount[OF inv]
  have later: "sameTracking s (app_step v p e s)" if "startCount s = 1 \<and> isTrigger e"
    using that trigger_after_start[OF inv, of e p] by (simp add: isTrigger_iff)
  have first: "freshStart s (app_step v p (PromiseSettles n (Resolved ''granted'')) s) \<and>
         permissionState (app_step v p (PromiseSettles n (Resolved ''granted'')) s) = granted"
    if "startCount s = 0 \<and> n < length (pendingRequests s)"
    using that granted_starts[OF inv, of n p] by simp
  have old: "startCount s \<le> 1 \<and> (isTracking s \<longleftrightarrow> startCount s = 1) \<and>
    (startCount s = 1 \<and> isTrigger e \<longrightarrow>
       filteredMagnitudeRef (app_step v p e s) = filteredMagnitudeRef s \<and>
       lastStepAtRef (app_step v p e s) = lastStepAtRef s \<and>
       steps (app_step v p e s) = steps s \<and>
       isTracking (app_step v p e s) \<and>
       startCount (app_step v p e s) = 1) \<and>
    (startCount s = 0 \<and> n < length (pendingRequests s) \<longrightarrow>
       startCount (app_step v p (PromiseSettles n (Resolved ''granted'')) s) = 1 \<and>
       isTracking (app_step v p (PromiseSettles n (Resolved ''granted'')) s) \<and>
       steps (app_step v p (PromiseSettles n (Resolved ''granted'')) s) = 0 \<and>
       filteredMagnitudeRef (app_step v p (PromiseSettles n (Resolved ''granted'')) s) = GRAVITY \<and>
       lastStepAtRef (app_step v p (PromiseSettles n (Resolved ''granted'')) s) = 0 \<and>
       permissionState (app_step v p (PromiseSettles n (Resolved ''granted'')) s) = granted)"
    using sc later first by (auto simp: sameTracking_def freshStart_def)
  have b1: "timeouts s + length (pendingRequests s) + startCount s \<le> 1" if "v = Basic"
    using inv that basic_one_call[of s] by simp
  have b2: "timeouts (app_step v p AutoStartEffect s) = timeouts s + 1 \<and>
       hasAutoStartedRef (app_step v p AutoStartEffect s)"
    if "v = Basic \<and> \<not> hasAutoStartedRef s \<and> motionAvailable p \<and> permissionState s = idle \<and>
     \<not> isTracking s"
    using that autoStartEffect_schedules[of s p] by simp
  have b3: "freshStart s (app_step v p TimeoutFires s) \<and> startCount (app_step v p TimeoutFires s) = 1 \<and>
       permissionState (app_step v p TimeoutFires s) = granted"
    if h: "v = Basic \<and> 0 < timeouts s \<and> motionAvailable p \<and> \<not> hasRequestPermission p"
  proof -
    from h b1 have "startCount s = 0" by simp
    with h startTracking_open[of p s] show ?thesis by (simp add: freshStart_def)
  qed
  have b4: "pendingRequests (app_step v p TimeoutFires s) = [(ByStartTracking, False)] \<and>
       permissionState (app_step v p TimeoutFires s) = pending \<and>
       sameTracking s (app_step v p TimeoutFires s)"
    if h: "v = Basic \<and> 0 < timeouts s \<and> motionAvailable p \<and> hasRequestPermission p"
  proof -
    from h have vb: "v = Basic" and t: "0 < timeouts s" by simp_all
    note le = b1[OF vb]
    from le t have "startCount s = 0" by linarith
    moreover from le t have "length (pendingRequests s) = 0" by linarith
    ultimately have "\<not> isTracking s" "pendingRequests s = []" using sc by simp_all
    with h startTracking_gated[of p s] show ?thesis by simp
  qed
  have ci: "\<not> hasAutoStartedRef s \<and> \<not> isTracking s" if "v = Chat" "startCount s = 0"
    using inv that by (simp add: chat_not_started)
  have c1: "freshStart s (app_step v p MountEffect s) \<and> startCount (app_step v p MountEffect s) = 1 \<and>
       permissionState (app_step v p MountEffect s) = granted"
    if h: "v = Chat \<and> startCount s = 0 \<and> motionAvailable p \<and> \<not> hasRequestPermission p \<and>
     \<not> permissionRequestedRef s"
    using h ci mountEffect_open[of p s] by (simp add: freshStart_def)
  have c2: "freshStart s (app_step v p ButtonClick s) \<and> startCount (app_step v p ButtonClick s) = 1 \<and>
       permissionState (app_step v p ButtonClick s) = granted"
    if h: "v = Chat \<and> startCount s = 0 \<and> motionAvailable p \<and> \<not> hasRequestPermission p"
    using h ci button_open[of p s] by (simp add: freshStart_def)
  have c3: "pendingRequests (app_step v p MountEffect s) = pendingRequests s @ [(ByMountEffect, isTracking s)] \<and>
       sameTracking s (app_step v p MountEffect s)"
    if "v = Chat \<and> motionAvailable p \<and> hasRequestPermission p \<and> \<not> permissionRequestedRef s"
    using that mountEffect_gated[of p s] by simp
  have c4: "pendingRequests (app_step v p ButtonClick s)
         = pendingRequests s @ [(ByRequestPermission, isTracking s)] \<and>
       permissionState (app_step v p ButtonClick s) = pending \<and>
       sameTracking s (app_step v p ButtonClick s)"
    if "v = Chat \<and> motionAvailable p \<and> hasRequestPermission p"
    using that button_gated[of p s] by simp
  have c5: "pendingRequests (app_step v p Click s) = pendingRequests s @ [(ByFirstInteraction, c)] \<and>
       permissionState (app_step v p Click s) = pending"
    if "v = Chat \<and> hasRequestPermission p \<and> \<not> permissionRequestedRef s \<and> clickListener s = Some c"
    using that gesture_gated(1)[of p s c] by simp
  have c6: "pendingRequests (app_step v p Touchstart s) = pendingRequests s @ [(ByFirstInteraction, c)] \<and>
       permissionState (app_step v p Touchstart s) = pending"
    if "v = Chat \<and> hasRequestPermission p \<and> \<not> permissionRequestedRef s \<and> touchstartListener s = Some c"
    using that gesture_gated(2)[of p s c] by simp
  from old b1 b2 b3 b4 c1 c2 c3 c4 c5 c6 show ?thesis by blast
qed

theorem C2_witness:
  "startCount (run Chat gatedSensor [MountEffect] (initialApp Chat)) = 0 \<and>
   0 < length (pendingRequests (run Chat gatedSensor [MountEffect] (initialApp Chat))) \<and>
   isTracking (app_step Chat gatedSensor (PromiseSettles 0 (Resolved ''granted''))
     (run Chat gatedSensor [MountEffect] (initialApp Chat))) \<and>
   startCount (run Chat gatedSensor [MountEffect, ButtonClick, PromiseSettles 0 (Resolved ''granted'')]
     (initialApp Chat)) = 1 \<and>
   isTrigger (PromiseSettles 0 (Resolved ''granted'')) \<and>
   pendingRequests (run Chat gatedSensor [MountEffect, ButtonClick, PromiseSettles 0 (Resolved ''granted'')]
     (initialApp Chat)) = [(ByRequestPermission, False)] \<and>
   steps (app_step Chat gatedSensor (PromiseSettles 0 (Resolved ''granted''))
     (run Chat gatedSensor [MountEffect, ButtonClick, PromiseSettles 0 (Resolved ''granted'')]
        (initialApp Chat))) =
   steps (run Chat gatedSensor [MountEffect, ButtonClick, PromiseSettles 0 (Resolved ''granted'')]
        (initialApp Chat)) \<and>
   timeouts (run Basic openSensor [AutoStartEffect] (initialApp Basic)) = 1 \<and>
   isTracking (run Basic openSensor [AutoStartEffect, TimeoutFires] (initialApp Basic)) \<and>
   permissionState (run Basic openSensor [AutoStartEffect, TimeoutFires] (initialApp Basic)) = granted \<and>
   pendingRequests (run Basic gatedSensor [AutoStartEffect, TimeoutFires] (initialApp Basic))
     = [(ByStartTracking, False)] \<and>
   isTracking (run Chat openSensor [MountEffect] (initialApp Chat)) \<and>
   steps (run Chat openSensor [MountEffect] (initialApp Chat)) = 0 \<and>
   isTracking (run Chat openSensor [ButtonClick] (initialApp Chat)) \<and>
   pendingRequests (run Chat gatedSensor [MountEffect] (initialApp Chat)) = [(ByMountEffect, False)] \<and>
   pendingRequests (run Chat gatedSensor [ButtonClick] (initialApp Chat)) = [(ByRequestPermission, False)] \<and>
   clickListener (run Chat gatedSensor [InteractionEffect] (initialApp Chat)) = Some False \<and>
   pendingRequests (run Chat gatedSensor [InteractionEffect, Click] (initialApp Chat))
     = [(ByFirstInteraction, False)] \<and>
   pendingRequests (run Chat gatedSensor [InteractionEffect, Touchstart] (initialApp Chat))
     = [(ByFirstInteraction, False)]"
proof -
  let ?r = "run Chat gatedSensor [MountEffect] (initialApp Chat)"
  let ?s = "run Chat gatedSensor [MountEffect, ButtonClick, PromiseSettles 0 (Resolved ''granted'')]
     (initialApp Chat)"
  let ?b = "run Basic openSensor [AutoStartEffect] (initialApp Basic)"
  let ?g = "run Basic gatedSensor [AutoStartEffect] (initialApp Basic)"
  let ?i = "run Chat gatedSensor [InteractionEffect] (initialApp Chat)"
  have 0: "startCount ?r = 0" "0 < length (pendingRequests ?r)" by (simp_all add: run_defs)
  have 1: "startCount ?s = 1" by (simp add: run_defs)
  have 2: "pendingRequests ?s = [(ByRequestPermission, False)]" by (simp add: run_defs)
  have 3: "isTrigger (PromiseSettles 0 (Resolved ''granted''))" by simp
  from C2_tracking_starts_at_most_once[OF refl, where v = Chat and p = gatedSensor
         and es = "[MountEffect]" and n = 0] 0
  have 4: "isTracking (app_step Chat gatedSensor (PromiseSettles 0 (Resolved ''granted'')) ?r)"
    by blast
  from C2_tracking_starts_at_most_once[OF refl, where v = Chat and p = gatedSensor
         and es = "[MountEffect, ButtonClick, PromiseSettles 0 (Resolved ''granted'')]"
         and e = "PromiseSettles 0 (Resolved ''granted'')"] 1 3
  have 5: "steps (app_step Chat gatedSensor (PromiseSettles 0 (Resolved ''granted'')) ?s) = steps ?s"
    by blast
  have i0: "\<not> hasAutoStartedRef (initialApp Basic)" "permissionState (initialApp Basic) = idle"
    "\<not> isTracking (initialApp Basic)" "motionAvailable openSensor" "\<not> hasRequestPermission openSensor"
    "motionAvailable gatedSensor" "hasRequestPermission gatedSensor" "timeouts (initialApp Basic) = 0"
    by (simp_all add: run_defs)
  from C2_tracking_starts_at_most_once[OF refl, where v = Basic and p = openSensor and es = "[]"] i0
  have 6: "timeouts ?b = 1" by simp
  have tb: "0 < timeouts ?b" "0 < timeouts ?g" by (simp_all add: run_defs)
  from C2_tracking_starts_at_most_once[OF refl, where v = Basic and p = openSensor
         and es = "[AutoStartEffect]"] tb i0
  have "freshStart ?b (app_step Basic openSensor TimeoutFires ?b) \<and>
        permissionState (app_step Basic openSensor TimeoutFires ?b) = granted"
    by blast
  then have 7: "isTracking (run Basic openSensor [AutoStartEffect, TimeoutFires] (initialApp Basic))"
    "permissionState (run Basic openSensor [AutoStartEffect, TimeoutFires] (initialApp Basic)) = granted"
    by (simp_all add: freshStart_def)
  from C2_tracking_starts_at_most_once[OF refl, where v = Basic and p = gatedSensor
         and es = "[AutoStartEffect]"] tb i0
  have "pendingRequests (app_step Basic gatedSensor TimeoutFires ?g) = [(ByStartTracking, False)]"
    by blast
  then have 8: "pendingRequests (run Basic gatedSensor [AutoStartEffect, TimeoutFires] (initialApp Basic))
     = [(ByStartTracking, False)]"
    by simp
  have c0: "startCount (initialApp Chat) = 0" "\<not> permissionRequestedRef (initialApp Chat)"
    "\<not> isTracking (initialApp Chat)" "pendingRequests (initialApp Chat) = []"
    by (simp_all add: run_defs)
  from C2_tracking_starts_at_most_once[OF refl, where v = Chat and p = openSensor and es = "[]"] c0 i0
  have "freshStart (initialApp Chat) (app_step Chat openSensor MountEffect (initialApp Chat))"
    "freshStart (initialApp Chat) (app_step Chat openSensor ButtonClick (initialApp Chat))"
    by simp_all
  then have 9: "isTracking (run Chat openSensor [MountEffect] (initialApp Chat))"
    "steps (run Chat openSensor [MountEffect] (initialApp Chat)) = 0"
    "isTracking (run Chat openSensor [ButtonClick] (initialApp Chat))"
    by (simp_all add: freshStart_def)
  from C2_tracking_starts_at_most_once[OF refl, where v = Chat and p = gatedSensor and es = "[]"] c0 i0
  have 10: "pendingRequests (run Chat gatedSensor [MountEffect] (initialApp Chat)) = [(ByMountEffect, False)]"
    "pendingRequests (run Chat gatedSensor [ButtonClick] (initialApp Chat)) = [(ByRequestPermission, False)]"
    by simp_all
  have l: "clickListener ?i = Some False" "touchstartListener ?i = Some False"
    "\<not> permissionRequestedRef ?i" "pendingRequests ?i = []"
    by (simp_all add: run_defs)
  from C2_tracking_starts_at_most_once[OF refl, where v = Chat and p = gatedSensor
         and es = "[InteractionEffect]" and c = False] l i0
  have "pendingRequests (app_step Chat gatedSensor Click ?i) = [(ByFirstInteraction, False)]"
    "pendingRequests (app_step Chat gatedSensor Touchstart ?i) = [(ByFirstInteraction, False)]"
    by simp_all
  then have 11: "pendingRequests (run Chat gatedSensor [InteractionEffect, Click] (initialApp Chat))
     = [(ByFirstInteraction, False)]"
    "pendingRequests (run Chat gatedSensor [InteractionEffect, Touchstart] (initialApp Chat))
     = [(ByFirstInteraction, False)]"
    by simp_all
  from 0 1 2 3 4 5 6 7 8 9 10 11 l(1) show ?thesis by blast
qed

subsection \<open>Starting fresh\<close>

text \<open>
  Claim C3. Whatever the state, an event that takes tracking from inactive to active
  leaves the filter value at the gravity constant (the double 9.81) and the time of the
  last step at 0, the values of the initial state; so every stream of samples handled
  afterwards yields the same detected steps, filter values and step times as it does
  from the initial state.
\<close>

theorem C3_start_reseeds_filter:
  "\<not> isTracking s \<and> isTracking (app_step v p e s) \<longrightarrow>
     filteredMagnitudeRef (app_step v p e s) = GRAVITY \<and>
     lastStepAtRef (app_step v p e s) = 0 \<and>
     filteredMagnitudeRef (initialApp v) = GRAVITY \<and>
     lastStepAtRef (initialApp v) = 0 \<and>
     stepTimes v samples (app_step v p e s) = stepTimes v samples (initialApp v) \<and>
     filteredMagnitudeRef (runSamples v samples (app_step v p e s))
       = filteredMagnitudeRef (runSamples v samples (initialApp v)) \<and>
     lastStepAtRef (runSamples v samples (app_step v p e s))
       = lastStepAtRef (runSamples v samples (initialApp v))"
proof
  assume "\<not> isTracking s \<and> isTracking (app_step v p e s)"
  then have "freshStart s (app_step v p e s)" by (simp add: tracking_begins_fresh)
  then have f: "filteredMagnitudeRef (app_step v p e s) = filteredMagnitudeRef (initialApp v)"
    and l: "lastStepAtRef (app_step v p e s) = lastStepAtRef (initialApp v)"
    by (simp_all add: freshStart_def initialApp_def)
  from stream_depends_on_filter[OF f l, of v samples] f l
  show "filteredMagnitudeRef (app_step v p e s) = GRAVITY \<and>
     lastStepAtRef (app_step v p e s) = 0 \<and>
     filteredMagnitudeRef (initialApp v) = GRAVITY \<and>
     lastStepAtRef (initialApp v) = 0 \<and>
     stepTimes v samples (app_step v p e s) = stepTimes v samples (initialApp v) \<and>
     filteredMagnitudeRef (runSamples v samples (app_step v p e s))
       = filteredMagnitudeRef (runSamples v samples (initialApp v)) \<and>
     lastStepAtRef (runSamples v samples (app_step v p e s))
       = lastStepAtRef (runSamples v samples (initialApp v))"
    by (simp add: initialApp_def)
qed

theorem C3_witness:
  "\<not> isTracking (staleApp Chat) \<and>
   filteredMagnitudeRef (staleApp Chat) = Fin 3 \<and>
   lastStepAtRef (staleApp Chat) = 1699999999900 \<and>
   isTracking (app_step Chat openSensor ButtonClick (staleApp Chat)) \<and>
   filteredMagnitudeRef (app_step Chat openSensor ButtonClick (staleApp Chat)) = GRAVITY \<and>
   lastStepAtRef (app_step Chat openSensor ButtonClick (staleApp Chat)) = 0 \<and>
   stepTimes Chat [(gravityEvent, 1700000000000)] (app_step Chat openSensor ButtonClick (staleApp Chat))
     = stepTimes Chat [(gravityEvent, 1700000000000)] (initialApp Chat)"
proof -
  have 1: "\<not> isTracking (staleApp Chat)" "filteredMagnitudeRef (staleApp Chat) = Fin 3"
    "lastStepAtRef (staleApp Chat) = 1699999999900"
    by (simp_all add: staleApp_def initialApp_def)
  have 2: "isTracking (app_step Chat openSensor ButtonClick (staleApp Chat))"
    by (simp add: staleApp_def run_defs)
  from C3_start_reseeds_filter[of "staleApp Chat" Chat openSensor ButtonClick
         "[(gravityEvent, 1700000000000)]"] 1 2
  show ?thesis by blast
qed


subsection \<open>The counter\<close>

text \<open>
  Claim C8. An event that does not start tracking leaves the counter or adds the
  variant's increment to it, the latter only for a motion sample that is detected as a
  step while tracking; so the counter never decreases over any sequence of events
  without a start. An event that starts tracking sets the counter to 0.
\<close>

theorem C8_steps_monotone_between_starts:
  "(startCount (app_step v p e s) = startCount s \<longrightarrow>
      steps s \<le> steps (app_step v p e s) \<and>
      (steps (app_step v p e s) = steps s \<or>
       steps (app_step v p e s) = steps s + stepIncrement v \<and>
       (\<exists>ev now. e = DeviceMotion ev now \<and> isTracking s \<and> stepDetected v ev now s))) \<and>
   (startCount (app_step v p e s) \<noteq> startCount s \<longrightarrow>
      startCount (app_step v p e s) = startCount s + 1 \<and>
      steps (app_step v p e s) = 0 \<and> isTracking (app_step v p e s)) \<and>
   (startCount (run v p es s) = startCount s \<longrightarrow> steps s \<le> steps (run v p es s))"
proof (intro conjI impI)
  assume same: "startCount (app_step v p e s) = startCount s"
  then show "steps s \<le> steps (app_step v p e s)" by (rule steps_step_mono)
  from same show "steps (app_step v p e s) = steps s \<or>
       steps (app_step v p e s) = steps s + stepIncrement v \<and>
       (\<exists>ev now. e = DeviceMotion ev now \<and> isTracking s \<and> stepDetected v ev now s)"
    by (rule steps_step_no_start)
next
  assume "startCount (app_step v p e s) \<noteq> startCount s"
  with app_step_cases[of s v p e] have f: "freshStart s (app_step v p e s)"
    by (auto simp: sameTracking_def handleMotion_frame)
  then show "startCount (app_step v p e s) = startCount s + 1"
    and "steps (app_step v p e s) = 0" and "isTracking (app_step v p e s)"
    by (simp_all add: freshStart_def)
next
  assume "startCount (run v p es s) = startCount s"
  then show "steps s \<le> steps (run v p es s)" by (rule steps_run_mono)
qed

theorem C8_witness:
  "startCount (app_step Chat openSensor (DeviceMotion restEvent 1700000000000) (trackingApp Chat))
     = startCount (trackingApp Chat) \<and>
   steps (app_step Chat openSensor (DeviceMotion restEvent 1700000000000) (trackingApp Chat))
     = steps (trackingApp Chat) + 1000 \<and>
   startCount (app_step Chat openSensor MountEffect (staleApp Chat)) \<noteq> startCount (staleApp Chat) \<and>
   steps (staleApp Chat) = 42 \<and>
   steps (app_step Chat openSensor MountEffect (staleApp Chat)) = 0 \<and>
   startCount (run Chat openSensor [DeviceMotion restEvent 1700000000000, ButtonClick] (trackingApp Chat))
     = startCount (trackingApp Chat) \<and>
   steps (trackingApp Chat) \<le>
     steps (run Chat openSensor [DeviceMotion restEvent 1700000000000, ButtonClick] (trackingApp Chat))"
proof -
  have f: "filteredMagnitudeRef (trackingApp Chat) = GRAVITY"
    and l: "1700000000000 - lastStepAtRef (trackingApp Chat) > 400"
    by (simp_all add: trackingApp_def run_defs)
  have m: "handleMotion Chat restEvent 1700000000000 (trackingApp Chat) =
    (trackingApp Chat)\<lparr>filteredMagnitudeRef := Fin (4418031234450457 / 562949953421312),
       lastStepAtRef := 1700000000000, steps := 1000\<rparr>"
    using handleMotion_zero_fresh[OF select_restEvent magnitude_restReading f l, of Chat]
    by (simp add: trackingApp_def run_defs)
  have t: "isTracking (trackingApp Chat)" "steps (trackingApp Chat) = 0"
    "hasAutoStartedRef (trackingApp Chat)"
    by (simp_all add: trackingApp_def run_defs)
  have 1: "startCount (app_step Chat openSensor (DeviceMotion restEvent 1700000000000) (trackingApp Chat))
     = startCount (trackingApp Chat)"
    by (simp add: deliverMotion_def t m)
  have 2: "steps (app_step Chat openSensor (DeviceMotion restEvent 1700000000000) (trackingApp Chat))
     = steps (trackingApp Chat) + 1000"
    by (simp add: deliverMotion_def t m)
  have 3: "startCount (app_step Chat openSensor MountEffect (staleApp Chat)) \<noteq> startCount (staleApp Chat)"
    "steps (staleApp Chat) = 42"
    by (simp_all add: staleApp_def run_defs)
  have 4: "startCount (run Chat openSensor [DeviceMotion restEvent 1700000000000, ButtonClick] (trackingApp Chat))
     = startCount (trackingApp Chat)"
    by (simp add: deliverMotion_def t m handleRequestPermission_def openSensor_def autoStart_def)
  from C8_steps_monotone_between_starts
         [of Chat openSensor MountEffect "staleApp Chat"] 3
  have 5: "steps (app_step Chat openSensor MountEffect (staleApp Chat)) = 0" by blast
  from C8_steps_monotone_between_starts
         [of Chat openSensor _ "trackingApp Chat" "[DeviceMotion restEvent 1700000000000, ButtonClick]"] 4
  have 6: "steps (trackingApp Chat) \<le>
     steps (run Chat openSensor [DeviceMotion restEvent 1700000000000, ButtonClick] (trackingApp Chat))"
    by blast
  from 1 2 3 4 5 6 show ?thesis by blast
qed

text \<open>
  Claim C10. The chat variant starts with a counter of 1000. In every reachable state
  that is not tracking the counter is still 1000 and tracking has never started, and
  the event that takes such a state into tracking sets the counter to 0.
\<close>

theorem C10_chat_counter_drops_at_first_start:
  assumes "s = run Chat p es (initialApp Chat)"
  shows "steps (initialApp Chat) = 1000 \<and>
    (\<not> isTracking s \<longrightarrow> steps s = 1000 \<and> startCount s = 0) \<and>
    (\<not> isTracking s \<and> isTracking (chat_step p e s) \<longrightarrow>
       steps (chat_step p e s) = 0 \<and> startCount (chat_step p e s) = 1)"
proof -
  have "isTracking (initialApp Chat) \<or> steps (initialApp Chat) = 1000"
    by (simp add: initialApp_def)
  from idle_counter_run[OF this, of Chat p es]
  have idle: "isTracking s \<or> steps s = 1000" by (simp add: assms)
  have inv: "appInv Chat s" unfolding assms by (rule appInv_reachable)
  from appInv_startCount[OF inv] have sc: "\<not> isTracking s \<longrightarrow> startCount s = 0" by auto
  have "freshStart s (chat_step p e s)" if "\<not> isTracking s \<and> isTracking (chat_step p e s)"
    using that tracking_begins_fresh[of s Chat p e] by simp
  with idle sc show ?thesis by (auto simp: freshStart_def initialApp_def)
qed

theorem C10_witness:
  "\<not> isTracking (run Chat gatedSensor [MountEffect, InteractionEffect] (initialApp Chat)) \<and>
   steps (run Chat gatedSensor [MountEffect, InteractionEffect] (initialApp Chat)) = 1000 \<and>
   isTracking (chat_step gatedSensor (PromiseSettles 0 (Resolved ''granted''))
     (run Chat gatedSensor [MountEffect, InteractionEffect] (initialApp Chat))) \<and>
   steps (chat_step gatedSensor (PromiseSettles 0 (Resolved ''granted''))
     (run Chat gatedSensor [MountEffect, InteractionEffect] (initialApp Chat))) = 0"
proof -
  let ?s = "run Chat gatedSensor [MountEffect, InteractionEffect] (initialApp Chat)"
  have 1: "\<not> isTracking ?s" by (simp add: run_defs)
  have 2: "isTracking (chat_step gatedSensor (PromiseSettles 0 (Resolved ''granted'')) ?s)"
    by (simp add: run_defs)
  from C10_chat_counter_drops_at_first_start[OF refl, of gatedSensor
         "[MountEffect, InteractionEffect]" "PromiseSettles 0 (Resolved ''granted'')"] 1 2
  show ?thesis by blast
qed


subsection \<open>No sensor\<close>

lemma missingInv_initial: "missingInv (initialApp v)"
  by (simp add: missingInv_def initialApp_def)

lemma missingInv_step:
  assumes "\<not> motionAvailable p" "missingInv s"
  shows "missingInv (app_step v p e s)"
proof (cases v)
  case Basic
  with assms show ?thesis
    by (cases e) (auto simp: missingInv_def autoStartEffect_def settle_def deliverMotion_def)
next
  case Chat
  with assms show ?thesis
    by (cases e) (auto simp: missingInv_def mountEffect_def interactionEffect_def
          handleRequestPermission_def settle_def deliverMotion_def)
qed

lemma missingInv_run:
  "\<not> motionAvailable p \<Longrightarrow> missingInv s \<Longrightarrow> missingInv (run v p es s)"
  by (induction es arbitrary: s) (simp_all add: missingInv_step)

text \<open>
  Claim C9. Without the sensor, in either variant and after any sequence of events,
  \<^verbatim>\<open>requestPermission()\<close> has never been called, nothing is scheduled or registered,
  tracking has not started, the permission state is idle, and one of the two
  capability messages is displayed (the message computed at render, or the one the
  button's handler sets).
\<close>

theorem C9_no_sensor_no_request:
  assumes "\<not> motionAvailable p" and "s = run v p es (initialApp v)"
  shows "requestsIssued s = 0 \<and> pendingRequests s = [] \<and> timeouts s = 0 \<and>
         touchstartListener s = None \<and> clickListener s = None \<and>
         \<not> isTracking s \<and> startCount s = 0 \<and> permissionState s = idle \<and>
         apiError p = Some ''Device Motion API is not available in this browser.'' \<and>
         (displayError p s = Some ''Device Motion API is not available in this browser.'' \<or>
          displayError p s = Some ''Device Motion API is not supported in this context.'')"
proof -
  have "missingInv s"
    unfolding assms(2) by (rule missingInv_run[OF assms(1) missingInv_initial])
  with assms(1) show ?thesis
    by (auto simp: missingInv_def displayError_def apiError_def)
qed

theorem C9_witness:
  "\<not> motionAvailable noSensor \<and>
   permissionState (run Chat noSensor
      [MountEffect, InteractionEffect, Touchstart, Click, ButtonClick, TimeoutFires,
       PromiseSettles 0 (Resolved ''granted''), DeviceMotion gravityEvent 1700000000000]
      (initialApp Chat)) = idle \<and>
   requestsIssued (run Chat noSensor
      [MountEffect, InteractionEffect, Touchstart, Click, ButtonClick, TimeoutFires,
       PromiseSettles 0 (Resolved ''granted''), DeviceMotion gravityEvent 1700000000000]
      (initialApp Chat)) = 0 \<and>
   displayError noSensor (run Chat noSensor
      [MountEffect, InteractionEffect, Touchstart, Click, ButtonClick, TimeoutFires,
       PromiseSettles 0 (Resolved ''granted''), DeviceMotion gravityEvent 1700000000000]
      (initialApp Chat)) = Some ''Device Motion API is not supported in this context.''"
proof -
  have 1: "\<not> motionAvailable noSensor" by (simp add: noSensor_def)
  have 2: "displayError noSensor (run Chat noSensor
      [MountEffect, InteractionEffect, Touchstart, Click, ButtonClick, TimeoutFires,
       PromiseSettles 0 (Resolved ''granted''), DeviceMotion gravityEvent 1700000000000]
      (initialApp Chat)) = Some ''Device Motion API is not supported in this context.''"
    by (simp add: run_defs displayError_def)
  from C9_no_sensor_no_request[OF 1 refl, of Chat
      "[MountEffect, InteractionEffect, Touchstart, Click, ButtonClick, TimeoutFires,
       PromiseSettles 0 (Resolved ''granted''), DeviceMotion gravityEvent 1700000000000]"] 1 2
  show ?thesis by blast
qed

subsection \<open>Rejected requests\<close>

lemma mountPhase_initial: "mountPhase (initialApp Chat)"
  by (simp add: mountPhase_def initialApp_def)

lemma resume_other_frame:
  assumes "who \<noteq> ByMountEffect"
  shows "permissionRequestedRef (resume who c r s) = permissionRequestedRef s"
    and "pendingRequests (resume who c r s) = pendingRequests s"
  using assms
  by (cases who; cases r;
      simp add: startTracking_resume_def handleFirstInteraction_resume_def
        handleRequestPermission_resume_def autoStart_def beginTracking_def removeListeners_def)+

lemma mountEffect_resume_frame:
  "pendingRequests (mountEffect_resume c r s) = pendingRequests s"
  "r = Rejected \<Longrightarrow> permissionState (mountEffect_resume c r s) = permissionState s"
  "r = Rejected \<Longrightarrow> \<not> permissionRequestedRef (mountEffect_resume c r s)"
  "r \<noteq> Rejected \<Longrightarrow> permissionRequestedRef (mountEffect_resume c r s) = permissionRequestedRef s"
  by (cases r; simp add: mountEffect_resume_def autoStart_def beginTracking_def)+

lemma mountPhase_settle:
  assumes "mountPhase s"
  shows "mountPhase (settle n r s)"
proof (cases "n < length (pendingRequests s)")
  case False
  with assms show ?thesis by (simp add: settle_def)
next
  case True
  define who where "who = fst (pendingRequests s ! n)"
  define c where "c = snd (pendingRequests s ! n)"
  have st: "settle n r s = resume who c r (dropRequest n s)"
    using True by (simp add: settle_def who_def c_def)
  have mem: "pendingRequests s ! n \<in> set (pendingRequests s)" using True by (rule nth_mem)
  show ?thesis
  proof (cases "who = ByMountEffect")
    case mount: True
    from mem have "ByMountEffect \<in> set (map fst (pendingRequests s))"
      using mount by (auto simp: who_def intro: rev_image_eqI)
    with assms True have one: "map fst (pendingRequests s) = [ByMountEffect]"
      and ref: "permissionRequestedRef s" and idle: "permissionState s = idle"
      by (auto simp: mountPhase_def)
    from one have len: "length (pendingRequests s) = 1" by (metis length_map length_Cons list.size(3) One_nat_def)
    with True have n0: "n = 0" by simp
    have empty: "pendingRequests (dropRequest n s) = []"
      using len n0 by (cases "pendingRequests s") (simp_all add: dropRequest_def)
    have dr: "permissionRequestedRef (dropRequest n s)" "permissionState (dropRequest n s) = idle"
      using ref idle by (simp_all add: dropRequest_def)
    show ?thesis
    proof (cases "r = Rejected")
      case True
      then show ?thesis
        unfolding st mount
        by (simp add: mountPhase_def mountEffect_resume_frame empty dr)
    next
      case False
      then show ?thesis
        unfolding st mount
        by (simp add: mountPhase_def mountEffect_resume_frame empty dr)
    qed
  next
    case other: False
    from mem other have "ByMountEffect \<noteq> fst (pendingRequests s ! n)" by (simp add: who_def)
    with assms True mem have ref: "permissionRequestedRef s"
      and none: "ByMountEffect \<notin> set (map fst (pendingRequests s))"
      by (auto simp: mountPhase_def who_def)
    have "set (pendingRequests (dropRequest n s)) \<subseteq> set (pendingRequests s)"
      by (auto simp: dropRequest_def dest: in_set_takeD in_set_dropD)
    with none have none': "ByMountEffect \<notin> set (map fst (pendingRequests (dropRequest n s)))"
      by auto
    have ref': "permissionRequestedRef (dropRequest n s)" using ref by (simp add: dropRequest_def)
    show ?thesis
      unfolding st using none' ref'
      by (simp add: mountPhase_def resume_other_frame[OF other])
  qed
qed

lemma mountPhase_handleFirstInteraction:
  assumes "mountPhase s" "touchstartListener s' = l" "clickListener s' = l'"
    and "pendingRequests s' = pendingRequests s" "permissionRequestedRef s' = permissionRequestedRef s"
    and "permissionState s' = permissionState s"
  shows "mountPhase (handleFirstInteraction p c s')"
  using assms
  by (auto simp: mountPhase_def handleFirstInteraction_def issueRequest_def removeListeners_def)

lemma mountPhase_step:
  assumes "mountPhase s" "e \<noteq> ButtonClick"
  shows "mountPhase (chat_step p e s)"
proof (cases e)
  case (PromiseSettles n r)
  with assms(1) show ?thesis by (simp add: mountPhase_settle)
next
  case MountEffect
  with assms(1) show ?thesis
    by (auto simp: mountPhase_def mountEffect_def issueRequest_def autoStart_def beginTracking_def)
next
  case InteractionEffect
  with assms(1) show ?thesis by (auto simp: mountPhase_def interactionEffect_def)
next
  case Touchstart
  show ?thesis
  proof (cases "touchstartListener s")
    case None
    with assms(1) Touchstart show ?thesis by simp
  next
    case (Some c)
    have "mountPhase (handleFirstInteraction p c (s\<lparr>touchstartListener := None\<rparr>))"
      by (rule mountPhase_handleFirstInteraction[OF assms(1)]) simp_all
    with Touchstart Some show ?thesis by simp
  qed
next
  case Click
  show ?thesis
  proof (cases "clickListener s")
    case None
    with assms(1) Click show ?thesis by simp
  next
    case (Some c)
    have "mountPhase (handleFirstInteraction p c (s\<lparr>clickListener := None\<rparr>))"
      by (rule mountPhase_handleFirstInteraction[OF assms(1)]) simp_all
    with Click Some show ?thesis by simp
  qed
next
  case (DeviceMotion ev now)
  with assms(1) show ?thesis
    by (auto simp: mountPhase_def deliverMotion_def handleMotion_frame)
next
  case ButtonClick
  with assms(2) show ?thesis by simp
qed (use assms(1) in simp_all)

lemma mountPhase_run:
  "mountPhase s \<Longrightarrow> ButtonClick \<notin> set es \<Longrightarrow> mountPhase (run Chat p es s)"
proof (induction es arbitrary: s)
  case Nil
  then show ?case by simp
next
  case (Cons e es)
  from Cons.prems have "mountPhase (chat_step p e s)" by (intro mountPhase_step) auto
  from Cons.IH[OF this] Cons.prems(2) show ?case by simp
qed

lemma mountPhase_pending:
  assumes "mountPhase s" "n < length (pendingRequests s)" "fst (pendingRequests s ! n) = ByMountEffect"
  shows "permissionState s = idle"
proof -
  from assms(2) have "pendingRequests s ! n \<in> set (pendingRequests s)" by (rule nth_mem)
  with assms(3) have "ByMountEffect \<in> set (map fst (pendingRequests s))"
    by (auto intro: rev_image_eqI)
  with assms(1,2) show ?thesis by (auto simp: mountPhase_def)
qed


text \<open>
  Claim C4, as stated, fails in four ways. In the basic variant the request of
  \<^verbatim>\<open>startTracking\<close> is issued from a timeout, and when it is rejected the permission state
  becomes denied; no gesture listener exists, and later gestures and effects issue no
  further request. In the chat variant the rejection of the mount effect's request does
  not set the state but leaves it as it is, which is denied when the button's request was
  declined meanwhile. The rejection does not re-arm a listener: when the click listener
  has fired before the rejection (doing nothing, since the request was still pending), a
  click after the rejection issues no request and tracking does not start. And when the
  request retried by the gesture handler is itself rejected, the state is denied.
\<close>

theorem C4_counterexample:
  "permissionState (run Basic gatedSensor [AutoStartEffect, TimeoutFires] (initialApp Basic)) = pending \<and>
   pendingRequests (run Basic gatedSensor [AutoStartEffect, TimeoutFires] (initialApp Basic))
     = [(ByStartTracking, False)] \<and>
   permissionState (run Basic gatedSensor [AutoStartEffect, TimeoutFires, PromiseSettles 0 Rejected]
     (initialApp Basic)) = denied \<and>
   clickListener (run Basic gatedSensor [AutoStartEffect, TimeoutFires, PromiseSettles 0 Rejected]
     (initialApp Basic)) = None \<and>
   requestsIssued (run Basic gatedSensor
     [AutoStartEffect, TimeoutFires, PromiseSettles 0 Rejected, Touchstart, Click, AutoStartEffect,
      TimeoutFires] (initialApp Basic)) = 1 \<and>
   \<not> isTracking (run Basic gatedSensor
     [AutoStartEffect, TimeoutFires, PromiseSettles 0 Rejected, Touchstart, Click, AutoStartEffect,
      TimeoutFires] (initialApp Basic)) \<and>
   pendingRequests (run Chat gatedSensor
     [MountEffect, InteractionEffect, Click, ButtonClick, PromiseSettles 1 (Resolved ''denied'')]
     (initialApp Chat)) = [(ByMountEffect, False)] \<and>
   permissionState (run Chat gatedSensor
     [MountEffect, InteractionEffect, Click, ButtonClick, PromiseSettles 1 (Resolved ''denied''),
      PromiseSettles 0 Rejected] (initialApp Chat)) = denied \<and>
   pendingRequests (run Chat gatedSensor [MountEffect, InteractionEffect, Click] (initialApp Chat))
     = [(ByMountEffect, False)] \<and>
   permissionState (run Chat gatedSensor [MountEffect, InteractionEffect, Click, PromiseSettles 0 Rejected]
     (initialApp Chat)) = idle \<and>
   clickListener (run Chat gatedSensor [MountEffect, InteractionEffect, Click, PromiseSettles 0 Rejected]
     (initialApp Chat)) = None \<and>
   requestsIssued (run Chat gatedSensor
     [MountEffect, InteractionEffect, Click, PromiseSettles 0 Rejected, Click] (initialApp Chat)) = 1 \<and>
   pendingRequests (run Chat gatedSensor
     [MountEffect, InteractionEffect, Click, PromiseSettles 0 Rejected, Click] (initialApp Chat)) = [] \<and>
   \<not> isTracking (run Chat gatedSensor
     [MountEffect, InteractionEffect, Click, PromiseSettles 0 Rejected, Click] (initialApp Chat)) \<and>
   pendingRequests (run Chat gatedSensor
     [MountEffect, InteractionEffect, PromiseSettles 0 Rejected, Click] (initialApp Chat))
     = [(ByFirstInteraction, False)] \<and>
   permissionState (run Chat gatedSensor
     [MountEffect, InteractionEffect, PromiseSettles 0 Rejected, Click, PromiseSettles 0 Rejected]
     (initialApp Chat)) = denied \<and>
   error (run Chat gatedSensor
     [MountEffect, InteractionEffect, PromiseSettles 0 Rejected, Click, PromiseSettles 0 Rejected]
     (initialApp Chat)) = Some ''Motion permission request failed.''"
  by (simp add: run_defs)

text \<open>
  Claim C4, amended. In the chat variant, when the request issued by the mount effect
  is rejected, the rejection leaves the permission state, the error, the gesture
  listeners and everything about tracking as they are and clears
  \<^verbatim>\<open>permissionRequestedRef\<close>; in every run in which the button has not been clicked the
  state is idle before and after the rejection (not denied), and no request is pending
  afterwards. If then the click listener is still registered and tracking has not
  started, a click issues a new request (state pending), and when that request resolves
  to granted the state is granted and tracking starts; if the click listener is no
  longer registered, a click changes nothing. A rejected request of any other origin
  (\<^verbatim>\<open>startTracking\<close> of the basic variant, the gesture handler, the button) sets the
  state to denied with the message "Motion permission request failed.".
\<close>

theorem C4_rejected_proactive_request_retried_on_gesture:
  "(n < length (pendingRequests s) \<and> fst (pendingRequests s ! n) = ByMountEffect \<longrightarrow>
      permissionState (chat_step p (PromiseSettles n Rejected) s) = permissionState s \<and>
      error (chat_step p (PromiseSettles n Rejected) s) = error s \<and>
      \<not> permissionRequestedRef (chat_step p (PromiseSettles n Rejected) s) \<and>
      touchstartListener (chat_step p (PromiseSettles n Rejected) s) = touchstartListener s \<and>
      clickListener (chat_step p (PromiseSettles n Rejected) s) = clickListener s \<and>
      sameTracking s (chat_step p (PromiseSettles n Rejected) s)) \<and>
   (s = run Chat p es (initialApp Chat) \<and> ButtonClick \<notin> set es \<and>
    n < length (pendingRequests s) \<and> fst (pendingRequests s ! n) = ByMountEffect \<longrightarrow>
      permissionState s = idle \<and>
      permissionState (chat_step p (PromiseSettles n Rejected) s) = idle \<and>
      pendingRequests (chat_step p (PromiseSettles n Rejected) s) = []) \<and>
   (s = run Chat p es (initialApp Chat) \<and> hasRequestPermission p \<and> \<not> permissionRequestedRef s \<and>
    clickListener s \<noteq> None \<and> startCount s = 0 \<longrightarrow>
      permissionState (chat_step p Click s) = pending \<and>
      pendingRequests (chat_step p Click s) = pendingRequests s @ [(ByFirstInteraction, False)] \<and>
      permissionState (chat_step p (PromiseSettles (length (pendingRequests s)) (Resolved ''granted''))
         (chat_step p Click s)) = granted \<and>
      isTracking (chat_step p (PromiseSettles (length (pendingRequests s)) (Resolved ''granted''))
         (chat_step p Click s)) \<and>
      startCount (chat_step p (PromiseSettles (length (pendingRequests s)) (Resolved ''granted''))
         (chat_step p Click s)) = 1) \<and>
   (clickListener s = None \<longrightarrow> chat_step p Click s = s) \<and>
   (n < length (pendingRequests s) \<and> fst (pendingRequests s ! n) \<noteq> ByMountEffect \<longrightarrow>
      permissionState (app_step v p (PromiseSettles n Rejected) s) = denied \<and>
      error (app_step v p (PromiseSettles n Rejected) s) = Some ''Motion permission request failed.'')"
proof (intro conjI impI)
  assume "n < length (pendingRequests s) \<and> fst (pendingRequests s ! n) = ByMountEffect"
  then show "permissionState (chat_step p (PromiseSettles n Rejected) s) = permissionState s"
    and "error (chat_step p (PromiseSettles n Rejected) s) = error s"
    and "\<not> permissionRequestedRef (chat_step p (PromiseSettles n Rejected) s)"
    and "touchstartListener (chat_step p (PromiseSettles n Rejected) s) = touchstartListener s"
    and "clickListener (chat_step p (PromiseSettles n Rejected) s) = clickListener s"
    and "sameTracking s (chat_step p (PromiseSettles n Rejected) s)"
    by (simp_all add: settle_def mountEffect_resume_def dropRequest_def sameTracking_def)
next
  assume h: "s = run Chat p es (initialApp Chat) \<and> ButtonClick \<notin> set es \<and>
    n < length (pendingRequests s) \<and> fst (pendingRequests s ! n) = ByMountEffect"
  then have r: "s = run Chat p es (initialApp Chat)" and nb: "ButtonClick \<notin> set es" by blast+
  have mp: "mountPhase s" unfolding r by (rule mountPhase_run[OF mountPhase_initial nb])
  from h have n: "n < length (pendingRequests s)" and w: "fst (pendingRequests s ! n) = ByMountEffect"
    by blast+
  show idle: "permissionState s = idle" by (rule mountPhase_pending[OF mp n w])
  from n w idle show "permissionState (chat_step p (PromiseSettles n Rejected) s) = idle"
    by (simp add: settle_def mountEffect_resume_def dropRequest_def)
  have "mountPhase (chat_step p (PromiseSettles n Rejected) s)"
    by (rule mountPhase_step[OF mp]) simp
  moreover have "\<not> permissionRequestedRef (chat_step p (PromiseSettles n Rejected) s)"
    using n w by (simp add: settle_def mountEffect_resume_def dropRequest_def)
  ultimately show "pendingRequests (chat_step p (PromiseSettles n Rejected) s) = []"
    by (auto simp: mountPhase_def)
next
  assume h: "s = run Chat p es (initialApp Chat) \<and> hasRequestPermission p \<and> \<not> permissionRequestedRef s \<and>
    clickListener s \<noteq> None \<and> startCount s = 0"
  then have r: "s = run Chat p es (initialApp Chat)" and hp: "hasRequestPermission p"
    and nr: "\<not> permissionRequestedRef s" and cl: "clickListener s \<noteq> None"
    and sc: "startCount s = 0"
    by blast+
  have "appInv Chat s" unfolding r by (rule appInv_reachable)
  then have inv: "chatInv s" by simp
  from chat_not_started[OF inv sc] have ns: "\<not> hasAutoStartedRef s" "\<not> isTracking s" by blast+
  with inv cl have l: "clickListener s = Some False" by (auto simp: chatInv_def)
  note h = hp nr sc
  from h l show "permissionState (chat_step p Click s) = pending"
    and "pendingRequests (chat_step p Click s) = pendingRequests s @ [(ByFirstInteraction, False)]"
    by (simp_all add: handleFirstInteraction_def issueRequest_def)
  from h l ns show "permissionState (chat_step p (PromiseSettles (length (pendingRequests s)) (Resolved ''granted''))
         (chat_step p Click s)) = granted"
    and "isTracking (chat_step p (PromiseSettles (length (pendingRequests s)) (Resolved ''granted''))
         (chat_step p Click s))"
    and "startCount (chat_step p (PromiseSettles (length (pendingRequests s)) (Resolved ''granted''))
         (chat_step p Click s)) = 1"
    by (simp_all add: handleFirstInteraction_def issueRequest_def settle_def dropRequest_def
          handleFirstInteraction_resume_def autoStart_def beginTracking_def removeListeners_def)
next
  assume "clickListener s = None"
  then show "chat_step p Click s = s" by simp
next
  assume "n < length (pendingRequests s) \<and> fst (pendingRequests s ! n) \<noteq> ByMountEffect"
  then have "permissionState (settle n Rejected s) = denied \<and>
      error (settle n Rejected s) = Some ''Motion permission request failed.''"
    by (cases "fst (pendingRequests s ! n)")
       (simp_all add: settle_def dropRequest_def startTracking_resume_def
          handleFirstInteraction_resume_def handleRequestPermission_resume_def removeListeners_def)
  then show "permissionState (app_step v p (PromiseSettles n Rejected) s) = denied"
    and "error (app_step v p (PromiseSettles n Rejected) s) = Some ''Motion permission request failed.''"
    by (cases v; simp)+
qed

theorem C4_witness:
  "ButtonClick \<notin> set [MountEffect, InteractionEffect] \<and>
   0 < length (pendingRequests (run Chat gatedSensor [MountEffect, InteractionEffect] (initialApp Chat))) \<and>
   fst (pendingRequests (run Chat gatedSensor [MountEffect, InteractionEffect] (initialApp Chat)) ! 0)
     = ByMountEffect \<and>
   permissionState (run Chat gatedSensor [MountEffect, InteractionEffect, PromiseSettles 0 Rejected]
     (initialApp Chat)) = idle \<and>
   error (run Chat gatedSensor [MountEffect, InteractionEffect, PromiseSettles 0 Rejected]
     (initialApp Chat)) = None \<and>
   clickListener (run Chat gatedSensor [MountEffect, InteractionEffect, PromiseSettles 0 Rejected]
     (initialApp Chat)) \<noteq> None \<and>
   startCount (run Chat gatedSensor [MountEffect, InteractionEffect, PromiseSettles 0 Rejected]
     (initialApp Chat)) = 0 \<and>
   permissionState (run Chat gatedSensor
     [MountEffect, InteractionEffect, PromiseSettles 0 Rejected, Click, PromiseSettles 0 (Resolved ''granted'')]
     (initialApp Chat)) = granted \<and>
   isTracking (run Chat gatedSensor
     [MountEffect, InteractionEffect, PromiseSettles 0 Rejected, Click, PromiseSettles 0 (Resolved ''granted'')]
     (initialApp Chat)) \<and>
   clickListener (run Chat gatedSensor [MountEffect, InteractionEffect, Click, PromiseSettles 0 Rejected]
     (initialApp Chat)) = None \<and>
   run Chat gatedSensor [MountEffect, InteractionEffect, Click, PromiseSettles 0 Rejected, Click]
     (initialApp Chat)
     = run Chat gatedSensor [MountEffect, InteractionEffect, Click, PromiseSettles 0 Rejected]
         (initialApp Chat) \<and>
   fst (pendingRequests (run Basic gatedSensor [AutoStartEffect, TimeoutFires] (initialApp Basic)) ! 0)
     \<noteq> ByMountEffect \<and>
   permissionState (run Basic gatedSensor [AutoStartEffect, TimeoutFires, PromiseSettles 0 Rejected]
     (initialApp Basic)) = denied"
proof -
  let ?s = "run Chat gatedSensor [MountEffect, InteractionEffect] (initialApp Chat)"
  let ?s1 = "run Chat gatedSensor [MountEffect, InteractionEffect, PromiseSettles 0 Rejected] (initialApp Chat)"
  let ?s3 = "run Chat gatedSensor
     [MountEffect, InteractionEffect, PromiseSettles 0 Rejected, Click, PromiseSettles 0 (Resolved ''granted'')]
     (initialApp Chat)"
  let ?c = "run Chat gatedSensor [MountEffect, InteractionEffect, Click, PromiseSettles 0 Rejected]
     (initialApp Chat)"
  let ?b = "run Basic gatedSensor [AutoStartEffect, TimeoutFires] (initialApp Basic)"
  have nb: "ButtonClick \<notin> set [MountEffect, InteractionEffect]" by simp
  have a: "0 < length (pendingRequests ?s)" "fst (pendingRequests ?s ! 0) = ByMountEffect"
    "error ?s = None"
    by (simp_all add: run_defs)
  have s1: "?s1 = chat_step gatedSensor (PromiseSettles 0 Rejected) ?s" by simp
  from C4_rejected_proactive_request_retried_on_gesture
         [where n = 0 and s = ?s and p = gatedSensor and es = "[MountEffect, InteractionEffect]"] a nb
  have b: "permissionState ?s1 = idle" "error ?s1 = None" "\<not> permissionRequestedRef ?s1"
    "pendingRequests ?s1 = []"
    unfolding s1 by simp_all
  have c: "hasRequestPermission gatedSensor" "clickListener ?s1 \<noteq> None" "startCount ?s1 = 0"
    by (simp_all add: run_defs)
  have s3: "?s3 = chat_step gatedSensor (PromiseSettles (length (pendingRequests ?s1)) (Resolved ''granted''))
     (chat_step gatedSensor Click ?s1)"
    unfolding b(4) by simp
  from C4_rejected_proactive_request_retried_on_gesture
         [where s = ?s1 and p = gatedSensor
            and es = "[MountEffect, InteractionEffect, PromiseSettles 0 Rejected]"] b c
  have d: "permissionState ?s3 = granted" "isTracking ?s3"
    unfolding s3 by blast+
  have e: "clickListener ?c = None" by (simp add: run_defs)
  from C4_rejected_proactive_request_retried_on_gesture[where s = ?c and p = gatedSensor] e
  have "chat_step gatedSensor Click ?c = ?c" by blast
  then have f: "run Chat gatedSensor [MountEffect, InteractionEffect, Click, PromiseSettles 0 Rejected, Click]
     (initialApp Chat) = ?c"
    by simp
  have g: "0 < length (pendingRequests ?b)" "fst (pendingRequests ?b ! 0) \<noteq> ByMountEffect"
    by (simp_all add: run_defs)
  from C4_rejected_proactive_request_retried_on_gesture
         [where n = 0 and s = ?b and p = gatedSensor and v = Basic] g
  have "permissionState (app_step Basic gatedSensor (PromiseSettles 0 Rejected) ?b) = denied" by blast
  then have h: "permissionState (run Basic gatedSensor [AutoStartEffect, TimeoutFires, PromiseSettles 0 Rejected]
     (initialApp Basic)) = denied"
    by simp
  from nb a b c d e f g h show ?thesis by blast
qed


end
